theory Spec2Isabelle
  imports Main "HOL-Library.Log_Nat" "HOL-Library.Multiset"
begin


section \<open>Python errors and NumPy integer arrays\<close>

text \<open>
  The notebooks are Python. An exception is a value of \<open>py_error\<close>; a statement that can
  raise returns \<open>py_error + 'a\<close>, with \<open>Inl\<close> for the exception.
\<close>

datatype py_error =
  IndexError | KeyError | AssertionError | ZeroDivisionError | OverflowError | ValueError

text \<open>
  A two-dimensional NumPy integer array: its shape and its rows. The shape is kept beside
  the rows because NumPy checks a column index against the second dimension even when
  the array has no row.
\<close>

record ndarray =
  nrows :: nat
  ncols :: nat
  cells :: "int list list"

text \<open>\<^verbatim>\<open>np.zeros((nrow, ncol), dtype=int)\<close>\<close>

definition zeros :: "nat \<Rightarrow> nat \<Rightarrow> ndarray" where
  "zeros nrow ncol = \<lparr>nrows = nrow, ncols = ncol, cells = replicate nrow (replicate ncol 0)\<rparr>"

text \<open>\<^verbatim>\<open>np.ones((nrow, ncol), dtype=np.int32)\<close>\<close>

definition ones :: "nat \<Rightarrow> nat \<Rightarrow> ndarray" where
  "ones nrow ncol = \<lparr>nrows = nrow, ncols = ncol, cells = replicate nrow (replicate ncol 1)\<rparr>"

text \<open>
  An integer index on an axis of length \<open>n\<close>: a negative index counts from the end, and an
  index outside \<open>-n .. n - 1\<close> raises IndexError.
\<close>

definition norm_index :: "nat \<Rightarrow> int \<Rightarrow> py_error + nat" where
  "norm_index n i =
     (if 0 \<le> i \<and> i < int n then Inr (nat i)
      else if - int n \<le> i \<and> i < 0 then Inr (nat (int n + i))
      else Inl IndexError)"

text \<open>
  A bound of a slice \<open>lo:hi\<close> (step one) on an axis of length \<open>n\<close>: a negative bound counts
  from the end, and the result is clipped to \<open>0 .. n\<close>; a slice never raises.
\<close>

definition slice_bound :: "nat \<Rightarrow> int \<Rightarrow> nat" where
  "slice_bound n i = (if i < 0 then nat (max (int n + i) 0) else min (nat i) n)"

text \<open>\<^verbatim>\<open>a[(i, j)] = v\<close>: one cell.\<close>

definition set_item :: "ndarray \<Rightarrow> int \<times> int \<Rightarrow> int \<Rightarrow> py_error + ndarray" where
  "set_item a ij v =
     (case norm_index (nrows a) (fst ij) of
        Inl e \<Rightarrow> Inl e
      | Inr i \<Rightarrow>
          (case norm_index (ncols a) (snd ij) of
             Inl e \<Rightarrow> Inl e
           | Inr j \<Rightarrow> Inr (a\<lparr>cells := (cells a)[i := (cells a ! i)[j := v]]\<rparr>)))"

text \<open>Assigning \<open>v\<close> to the positions \<open>lo, ..., hi - 1\<close> of one row.\<close>

definition fill_range :: "nat \<Rightarrow> nat \<Rightarrow> int \<Rightarrow> int list \<Rightarrow> int list" where
  "fill_range lo hi v xs = map (\<lambda>(j, x). if lo \<le> j \<and> j < hi then v else x) (enumerate 0 xs)"

text \<open>\<^verbatim>\<open>a[i, lo:hi] = v\<close>: a run of columns of one row.\<close>

definition set_row_slice :: "ndarray \<Rightarrow> int \<Rightarrow> int \<Rightarrow> int \<Rightarrow> int \<Rightarrow> py_error + ndarray" where
  "set_row_slice a i lo hi v =
     (case norm_index (nrows a) i of
        Inl e \<Rightarrow> Inl e
      | Inr r \<Rightarrow>
          Inr (a\<lparr>cells := (cells a)
                 [r := fill_range (slice_bound (ncols a) lo) (slice_bound (ncols a) hi) v
                         (cells a ! r)]\<rparr>))"

text \<open>\<^verbatim>\<open>a[:, j] = v\<close>: one column of every row.\<close>

definition set_col :: "ndarray \<Rightarrow> int \<Rightarrow> int \<Rightarrow> py_error + ndarray" where
  "set_col a j v =
     (case norm_index (ncols a) j of
        Inl e \<Rightarrow> Inl e
      | Inr c \<Rightarrow> Inr (a\<lparr>cells := map (\<lambda>row. row[c := v]) (cells a)\<rparr>))"

text \<open>Indexing a Python list or tuple with a non-negative literal.\<close>

definition item :: "'a list \<Rightarrow> nat \<Rightarrow> py_error + 'a" where
  "item xs n = (if n < length xs then Inr (xs ! n) else Inl IndexError)"

section \<open>The zone map of the particle-tracking example (\<open>prt_ex3\<close>)\<close>

text \<open>
  A well is the tuple (layer, row, column, discharge); the drain is
  (layer, row, (first column, end column)).
\<close>

type_synonym well = "int \<times> int \<times> int \<times> int"
type_synonym drain = "int \<times> int \<times> (int \<times> int)"

text \<open>\<^verbatim>\<open>w[1:3]\<close> of a well tuple: its row and column.\<close>

definition well_rc :: "well \<Rightarrow> int \<times> int" where
  "well_rc w = (case w of (k, i, j, q) \<Rightarrow> (i, j))"

text \<open>An entry of the list \<open>izone\<close>: an array for a layer, or a scalar.\<close>

datatype zone_layer = ZArray ndarray | ZScalar int

text \<open>
  Layer 1 of \<open>get_izone\<close>, statement by statement:
  \<^verbatim>\<open>
    l1 = ones()
    l1[wells[0][1:3]] = 2  # well
    l1[drain[1], drain[2][0] : drain[2][1]] = 4  # drain
    l1[:, ncol - 1] = 5  # river
  \<close>
\<close>

definition l1_well :: "nat \<Rightarrow> nat \<Rightarrow> well list \<Rightarrow> py_error + ndarray" where
  "l1_well nrow ncol wells =
     (case item wells 0 of
        Inl e \<Rightarrow> Inl e
      | Inr w \<Rightarrow> set_item (ones nrow ncol) (well_rc w) 2)"

definition l1_drain :: "nat \<Rightarrow> nat \<Rightarrow> well list \<Rightarrow> drain \<Rightarrow> py_error + ndarray" where
  "l1_drain nrow ncol wells drain =
     (case l1_well nrow ncol wells of
        Inl e \<Rightarrow> Inl e
      | Inr l1 \<Rightarrow>
          (case drain of (k, i, cols) \<Rightarrow> set_row_slice l1 i (fst cols) (snd cols) 4))"

definition l1_river :: "nat \<Rightarrow> nat \<Rightarrow> well list \<Rightarrow> drain \<Rightarrow> py_error + ndarray" where
  "l1_river nrow ncol wells drain =
     (case l1_drain nrow ncol wells drain of
        Inl e \<Rightarrow> Inl e
      | Inr l1 \<Rightarrow> set_col l1 (int ncol - 1) 5)"

text \<open>
  Layer 3:
  \<^verbatim>\<open>
    l3 = ones()
    l3[wells[1][1:3]] = 3  # well
  \<close>
\<close>

definition l3_well :: "nat \<Rightarrow> nat \<Rightarrow> well list \<Rightarrow> py_error + ndarray" where
  "l3_well nrow ncol wells =
     (case item wells 1 of
        Inl e \<Rightarrow> Inl e
      | Inr w \<Rightarrow> set_item (ones nrow ncol) (well_rc w) 3)"

text \<open>
  \<open>get_izone\<close> reads the notebook's globals \<open>nrow\<close>, \<open>ncol\<close>, \<open>wells\<close> and \<open>drain\<close>; they
  are its parameters here. It appends layer 1, the scalar 1 for layer 2, and layer 3.
\<close>

definition get_izone :: "nat \<Rightarrow> nat \<Rightarrow> well list \<Rightarrow> drain \<Rightarrow> py_error + zone_layer list" where
  "get_izone nrow ncol wells drain =
     (case l1_river nrow ncol wells drain of
        Inl e \<Rightarrow> Inl e
      | Inr l1 \<Rightarrow>
          (case l3_well nrow ncol wells of
             Inl e \<Rightarrow> Inl e
           | Inr l3 \<Rightarrow> Inr [ZArray l1, ZScalar 1, ZArray l3]))"

text \<open>The globals as the notebook sets them.\<close>

definition ex3_nrow :: nat where "ex3_nrow = 21"
definition ex3_ncol :: nat where "ex3_ncol = 20"

definition ex3_wells :: "well list" where
  "ex3_wells = [(0, 10, 9, - 75000), (2, 12, 4, - 100000)]"

definition ex3_drain :: drain where
  "ex3_drain = (0, 14, (9, 20))"

definition ex3_izone :: "py_error + zone_layer list" where
  "ex3_izone = get_izone ex3_nrow ex3_ncol ex3_wells ex3_drain"

text \<open>Reading a cell of an array that a statement returned; \<open>None\<close> when it raised.\<close>

definition cell_of :: "py_error + ndarray \<Rightarrow> nat \<Rightarrow> nat \<Rightarrow> int option" where
  "cell_of r i j =
     (case r of
        Inl e \<Rightarrow> None
      | Inr a \<Rightarrow> if i < nrows a \<and> j < ncols a then Some (cells a ! i ! j) else None)"

text \<open>The values that occur in an array.\<close>

definition values_of :: "ndarray \<Rightarrow> int set" where
  "values_of a = set (concat (cells a))"

section \<open>Binary64 arithmetic\<close>

text \<open>
  Python's \<open>float\<close> and NumPy's \<open>float64\<close> are IEEE 754 binary64 numbers: 53
  significant bits, rounding to nearest with ties to even. A finite float is modelled by
  the rational number it denotes, and an operation by the exact rational result followed
  by \<open>round64\<close>.

  \<open>binade x\<close> is the exponent \<open>e\<close> with \<open>2 powi e \<le> x < 2 powi (e + 1)\<close> of a positive
  \<open>x\<close>, computed from the bit lengths of its numerator and denominator.
\<close>

definition binade :: "rat \<Rightarrow> int" where
  "binade x =
     (case quotient_of x of
        (p, q) \<Rightarrow> let e = bitlen p - bitlen q in if 2 powi e \<le> x then e else e - 1)"

text \<open>Rounding a rational to the nearest integer, a tie going to the even one.\<close>

definition rne :: "rat \<Rightarrow> int" where
  "rne r =
     (let f = \<lfloor>r\<rfloor>; d = r - of_int f
      in if d < 1 / 2 then f else if 1 / 2 < d then f + 1 else if even f then f else f + 1)"

text \<open>
  The spacing of the floats around a positive \<open>x\<close>: 52 bits below its exponent, and the
  fixed spacing \<open>2 powi (- 1074)\<close> of the subnormal numbers below \<open>2 powi (- 1022)\<close>.
\<close>

definition ulp64 :: "rat \<Rightarrow> rat" where
  "ulp64 x = 2 powi (max (binade x) (- 1022) - 52)"

text \<open>The exponent that fixes the spacing: the binade, or \<open>- 1022\<close> for a subnormal number.\<close>

definition eexp :: "rat \<Rightarrow> int" where
  "eexp x = max (binade x) (- 1022)"

definition round64 :: "rat \<Rightarrow> rat" where
  "round64 x =
     (if x = 0 then 0 else sgn x * of_int (rne (\<bar>x\<bar> / ulp64 \<bar>x\<bar>)) * ulp64 \<bar>x\<bar>)"

text \<open>
  \<open>a / b\<close> on Python integers: the correctly rounded quotient; ZeroDivisionError for a
  zero divisor and OverflowError when the quotient is too large for a float.
\<close>

definition int_truediv :: "int \<Rightarrow> int \<Rightarrow> py_error + rat" where
  "int_truediv a b =
     (if b = 0 then Inl ZeroDivisionError
      else let r = round64 (of_int a / of_int b)
           in if 2 ^ 1024 \<le> \<bar>r\<bar> then Inl OverflowError else Inr r)"

text \<open>The conversion of a Python integer operand to a float.\<close>

definition float_of_int :: "int \<Rightarrow> py_error + rat" where
  "float_of_int a =
     (let r = round64 (of_int a) in if 2 ^ 1024 \<le> \<bar>r\<bar> then Inl OverflowError else Inr r)"

text \<open>
  \<open>x / d\<close> on floats: ZeroDivisionError for a zero divisor. A quotient beyond the largest
  float is an infinity, which is \<open>None\<close> here.
\<close>

definition float_truediv :: "rat \<Rightarrow> rat \<Rightarrow> py_error + rat option" where
  "float_truediv x d =
     (if d = 0 then Inl ZeroDivisionError
      else let r = round64 (x / d) in Inr (if 2 ^ 1024 \<le> \<bar>r\<bar> then None else Some r))"

text \<open>\<^verbatim>\<open>np.floor\<close>: exact on a finite float, and an infinity stays one.\<close>

definition np_floor :: "rat option \<Rightarrow> rat option" where
  "np_floor v = map_option (\<lambda>r. of_int \<lfloor>r\<rfloor>) v"

text \<open>
  Storing a float in an element of an \<open>int64\<close> array keeps its integer part. The theorems
  below concern values inside the \<open>int64\<close> range only; outside it, and for an infinity,
  the model raises OverflowError.
\<close>

definition to_int64 :: "rat option \<Rightarrow> py_error + int" where
  "to_int64 v =
     (case v of
        None \<Rightarrow> Inl OverflowError
      | Some r \<Rightarrow>
          if - (2 ^ 63) \<le> \<lfloor>r\<rfloor> \<and> \<lfloor>r\<rfloor> < 2 ^ 63 then Inr \<lfloor>r\<rfloor> else Inl OverflowError)"

section \<open>The splitting mask of the watershed (\<open>step2_split_watershed\<close>)\<close>

text \<open>
  The cell that builds the mask:
  \<^verbatim>\<open>
    use_metis = True
    if use_metis:
        split_array = mfsplit.optimize_splitting_mask(nparts=nr_domains)
    else:
        split_array = np.zeros((nrow, ncol), dtype=int)
        for irow in range(nrow):
            for icol in range(ncol):
                isub = np.floor(icol / (ncol / nr_domains))
                split_array[irow, icol] = isub
  \<close>
  \<open>isub\<close> is the value of \<^verbatim>\<open>np.floor(icol / (ncol / nr_domains))\<close>: the quotient of the two
  integers \<open>ncol\<close> and \<open>nr_domains\<close> is a float, \<open>icol\<close> is converted to a float and
  divided by it, and the floor is taken.
\<close>

definition isub :: "int \<Rightarrow> int \<Rightarrow> int \<Rightarrow> py_error + rat option" where
  "isub icol ncol nr_domains =
     (case int_truediv ncol nr_domains of
        Inl e \<Rightarrow> Inl e
      | Inr d \<Rightarrow>
          (case float_of_int icol of
             Inl e \<Rightarrow> Inl e
           | Inr x \<Rightarrow>
               (case float_truediv x d of
                  Inl e \<Rightarrow> Inl e
                | Inr q \<Rightarrow> Inr (np_floor q))))"

text \<open>The body of the inner loop.\<close>

definition split_cell :: "nat \<Rightarrow> int \<Rightarrow> nat \<Rightarrow> nat \<Rightarrow> ndarray \<Rightarrow> py_error + ndarray" where
  "split_cell ncol nr_domains irow icol a =
     (case isub (int icol) (int ncol) nr_domains of
        Inl e \<Rightarrow> Inl e
      | Inr v \<Rightarrow>
          (case to_int64 v of
             Inl e \<Rightarrow> Inl e
           | Inr z \<Rightarrow> set_item a (int irow, int icol) z))"

text \<open>The inner loop over the columns still to visit, and the outer loop over the rows.\<close>

fun col_loop :: "nat \<Rightarrow> int \<Rightarrow> nat \<Rightarrow> nat list \<Rightarrow> ndarray \<Rightarrow> py_error + ndarray" where
  "col_loop ncol nr_domains irow [] a = Inr a"
| "col_loop ncol nr_domains irow (icol # rest) a =
     (case split_cell ncol nr_domains irow icol a of
        Inl e \<Rightarrow> Inl e
      | Inr a' \<Rightarrow> col_loop ncol nr_domains irow rest a')"

fun row_loop :: "nat \<Rightarrow> int \<Rightarrow> nat list \<Rightarrow> ndarray \<Rightarrow> py_error + ndarray" where
  "row_loop ncol nr_domains [] a = Inr a"
| "row_loop ncol nr_domains (irow # rest) a =
     (case col_loop ncol nr_domains irow [0..<ncol] a of
        Inl e \<Rightarrow> Inl e
      | Inr a' \<Rightarrow> row_loop ncol nr_domains rest a')"

text \<open>The \<open>else\<close> branch: the mask of rectangular slices.\<close>

definition rect_split_array :: "nat \<Rightarrow> nat \<Rightarrow> int \<Rightarrow> py_error + ndarray" where
  "rect_split_array nrow ncol nr_domains =
     row_loop ncol nr_domains [0..<nrow] (zeros nrow ncol)"

text \<open>
  The whole cell. \<open>optimize_splitting_mask\<close> is the toolkit's method, which calls the Metis
  library; it is a parameter. The notebook assigns \<open>use_metis = True\<close> and tells the reader
  to switch between the two partitionings, so the flag is a parameter too.
\<close>

definition split_array_cell ::
  "bool \<Rightarrow> (int \<Rightarrow> ndarray) \<Rightarrow> nat \<Rightarrow> nat \<Rightarrow> int \<Rightarrow> py_error + ndarray" where
  "split_array_cell use_metis optimize_splitting_mask nrow ncol nr_domains =
     (if use_metis then Inr (optimize_splitting_mask nr_domains)
      else rect_split_array nrow ncol nr_domains)"

text \<open>
  The float value that the loop stores for column \<open>icol\<close>, written without the error
  cases.
\<close>

definition band :: "nat \<Rightarrow> nat \<Rightarrow> int \<Rightarrow> int" where
  "band icol ncol nr_domains =
     \<lfloor>round64 (round64 (of_nat icol) / round64 (of_nat ncol / of_int nr_domains))\<rfloor>"

text \<open>An array whose rows agree with its shape.\<close>

definition well_shaped :: "ndarray \<Rightarrow> bool" where
  "well_shaped a =
     (length (cells a) = nrows a \<and> list_all (\<lambda>row. length row = ncols a) (cells a))"


section \<open>The notebooks as sequences of toolkit calls\<close>

text \<open>
  A notebook runs its cells from top to bottom, and no cell of this repository branches
  or loops around a call that touches a simulation. What a notebook does to a simulation
  is therefore the list of these calls in the order of the source. An action names the
  Python variable that holds the simulation; the solver output that the convergence
  notebook reads from the directory of the base run, for which it holds no simulation
  object, goes under the name \<open>base_dir\<close>.
\<close>

datatype output_kind = Head | Concentration | Observations | Track_csv | Netcdf | Solver_csv

datatype action =
    Load_sim string
  | Assemble string
  | Write_simulation string
  | Run_simulation string "nat option"
  | Load_output string output_kind
  | Plot_output
  | Plot_input

text \<open>
  \<^item> \<open>Load_sim v\<close>: \<^verbatim>\<open>v = flopy.mf6.MFSimulation.load(...)\<close>, the simulation is read from
    its directory;
  \<^item> \<open>Assemble v\<close>: the simulation \<open>v\<close> is created or changed in memory
    (\<^verbatim>\<open>MFSimulation(...)\<close>, a package constructor, \<^verbatim>\<open>split_model\<close>, an assignment to an
    attribute, \<^verbatim>\<open>set_sim_path\<close>, \<^verbatim>\<open>ex3.get_mf6gwf_sim\<close>); consecutive constructor calls
    on one simulation are one action;
  \<^item> \<open>Write_simulation v\<close>: \<^verbatim>\<open>v.write_simulation(...)\<close>;
  \<^item> \<open>Run_simulation v p\<close>: \<^verbatim>\<open>v.run_simulation(...)\<close>, with its \<open>processors\<close> argument
    when it has one;
  \<^item> \<open>Load_output v k\<close>: an output file of \<open>v\<close> is read (\<^verbatim>\<open>output.head()\<close>,
    \<^verbatim>\<open>output.obs()\<close>, \<^verbatim>\<open>pd.read_csv\<close>, \<^verbatim>\<open>xa.open_dataset\<close>, \<^verbatim>\<open>xu.open_dataset\<close>);
  \<^item> \<open>Plot_output\<close>: a plot of data that was read from an output file;
  \<^item> \<open>Plot_input\<close>: a plot of input data (topography, grid, splitting mask, idomain).
\<close>

text \<open>The introduction to the parallel exercise: markdown cells only.\<close>

definition parallel_intro :: "action list" where
  "parallel_intro = []"

text \<open>\<open>step1_run_base_watershed\<close>\<close>

definition step1_run_base_watershed :: "action list" where
  "step1_run_base_watershed =
     [Load_sim ''sim'',
      Assemble ''sim'',
      Write_simulation ''sim'',
      Run_simulation ''sim'' (Some 1),
      Load_output ''sim'' Head,
      Plot_output]"

text \<open>\<open>step2_split_watershed\<close>\<close>

definition step2_split_watershed :: "action list" where
  "step2_split_watershed =
     [Load_sim ''base_sim'',
      Plot_input,
      Assemble ''parallel_sim'',
      Assemble ''parallel_sim'',
      Assemble ''parallel_sim'',
      Write_simulation ''parallel_sim'',
      Plot_input]"

text \<open>\<open>step3_parallel_watershed\<close>, with \<open>nr_cores = 2\<close>\<close>

definition step3_parallel_watershed :: "action list" where
  "step3_parallel_watershed =
     [Load_sim ''parallel_sim'',
      Load_sim ''serial_sim'',
      Run_simulation ''parallel_sim'' (Some 2),
      Load_output ''parallel_sim'' Head,
      Load_output ''serial_sim'' Head,
      Plot_output]"

text \<open>\<open>step4_parallel_solution\<close>, the convergence study\<close>

definition step4_parallel_solution :: "action list" where
  "step4_parallel_solution =
     [Load_sim ''parallel_sim'',
      Load_output ''base_dir'' Solver_csv,
      Load_output ''parallel_sim'' Solver_csv,
      Plot_output]"

text \<open>The model-splitting notebook on the Freyberg model\<close>

definition model_splitting :: "action list" where
  "model_splitting =
     [Load_sim ''sim'',
      Assemble ''sim'',
      Write_simulation ''sim'',
      Run_simulation ''sim'' None,
      Load_output ''sim'' Head,
      Plot_output,
      Plot_input,
      Assemble ''new_sim'',
      Assemble ''new_sim'',
      Write_simulation ''new_sim'',
      Run_simulation ''new_sim'' None,
      Load_output ''new_sim'' Head,
      Load_output ''new_sim'' Head,
      Plot_output,
      Plot_input,
      Assemble ''new_sim'',
      Assemble ''new_sim'',
      Write_simulation ''new_sim'',
      Run_simulation ''new_sim'' None,
      Load_output ''new_sim'' Head,
      Plot_output]"

text \<open>\<open>prt_ex3\<close>\<close>

definition prt_ex3 :: "action list" where
  "prt_ex3 =
     [Assemble ''sim'',
      Write_simulation ''sim'',
      Run_simulation ''sim'' None,
      Load_output ''sim'' Head,
      Load_output ''sim'' Track_csv,
      Plot_output]"

text \<open>\<open>prt_whirls_animation\<close>\<close>

definition prt_whirls_animation :: "action list" where
  "prt_whirls_animation =
     [Assemble ''sim'',
      Write_simulation ''sim'',
      Run_simulation ''sim'' None,
      Load_output ''sim'' Track_csv,
      Plot_output,
      Plot_output]"

text \<open>
  The transport notebook (GWT example 3). \<open>ex3.plot_head_results\<close> and
  \<open>ex3.plot_conc_results\<close> belong to a module that is not among the sources; each is
  entered as a read of the output it is named after, followed by a plot.
\<close>

definition gwt_ex3_cycle :: "action list" where
  "gwt_ex3_cycle =
     [Assemble ''sim_gwf'',
      Write_simulation ''sim_gwf'',
      Run_simulation ''sim_gwf'' None,
      Assemble ''sim_gwt'',
      Write_simulation ''sim_gwt'',
      Run_simulation ''sim_gwt'' None]"

definition gwt_ex3 :: "action list" where
  "gwt_ex3 =
     gwt_ex3_cycle
     @ [Load_output ''sim_gwf'' Head, Plot_output,
        Load_output ''sim_gwt'' Concentration, Plot_output,
        Load_output ''sim_gwt'' Observations, Plot_output]
     @ gwt_ex3_cycle @ [Load_output ''sim_gwt'' Observations]
     @ gwt_ex3_cycle @ [Load_output ''sim_gwt'' Observations]
     @ gwt_ex3_cycle @ [Load_output ''sim_gwt'' Observations]
     @ [Plot_output, Plot_output, Plot_output]"

text \<open>\<open>build_base_watershed\<close>\<close>

definition build_base_watershed :: "action list" where
  "build_base_watershed =
     [Plot_input,
      Plot_input,
      Plot_input,
      Plot_input,
      Assemble ''sim'',
      Write_simulation ''sim'']"

text \<open>The NetCDF notebook\<close>

definition netcdf_output :: "action list" where
  "netcdf_output =
     [Load_sim ''sim'',
      Assemble ''sim'',
      Assemble ''sim'',
      Assemble ''sim'',
      Write_simulation ''sim'',
      Run_simulation ''sim'' None,
      Load_output ''sim'' Netcdf,
      Plot_output,
      Assemble ''sim'',
      Assemble ''sim'',
      Write_simulation ''sim'',
      Run_simulation ''sim'' None,
      Load_output ''sim'' Netcdf,
      Plot_output,
      Plot_output,
      Plot_output]"

definition notebooks :: "(string \<times> action list) list" where
  "notebooks =
     [(''parallel_intro'', parallel_intro),
      (''step1_run_base_watershed'', step1_run_base_watershed),
      (''step2_split_watershed'', step2_split_watershed),
      (''step3_parallel_watershed'', step3_parallel_watershed),
      (''step4_parallel_solution'', step4_parallel_solution),
      (''model_splitting'', model_splitting),
      (''prt_ex3'', prt_ex3),
      (''prt_whirls_animation'', prt_whirls_animation),
      (''gwt_ex3'', gwt_ex3),
      (''build_base_watershed'', build_base_watershed),
      (''netcdf_output'', netcdf_output)]"

subsection \<open>What a notebook does\<close>


definition is_write :: "action \<Rightarrow> bool" where
  "is_write a = (case a of Write_simulation v \<Rightarrow> True | _ \<Rightarrow> False)"

definition is_run :: "action \<Rightarrow> bool" where
  "is_run a = (case a of Run_simulation v p \<Rightarrow> True | _ \<Rightarrow> False)"




subsection \<open>The order of the steps\<close>

text \<open>
  Where each simulation stands while the notebook runs: as it is on disk (loaded, or not
  touched by the notebook), assembled or changed in memory, written, or run.
\<close>

datatype stage = On_disk | Assembled | Written | Ran

fun step :: "(string \<Rightarrow> stage) \<Rightarrow> action \<Rightarrow> (string \<Rightarrow> stage)" where
  "step st (Load_sim v) = st(v := On_disk)"
| "step st (Assemble v) = st(v := Assembled)"
| "step st (Write_simulation v) = st(v := Written)"
| "step st (Run_simulation v p) = st(v := Ran)"
| "step st (Load_output v k) = st"
| "step st Plot_output = st"
| "step st Plot_input = st"

text \<open>
  A monitor: \<open>run_ok\<close> says at which stages a run is allowed, \<open>load_ok\<close> at which stages
  a read of output is.
\<close>

fun allowed :: "(stage \<Rightarrow> bool) \<Rightarrow> (stage \<Rightarrow> bool) \<Rightarrow> (string \<Rightarrow> stage) \<Rightarrow> action \<Rightarrow> bool" where
  "allowed run_ok load_ok st (Run_simulation v p) = run_ok (st v)"
| "allowed run_ok load_ok st (Load_output v k) = load_ok (st v)"
| "allowed run_ok load_ok st (Load_sim v) = True"
| "allowed run_ok load_ok st (Assemble v) = True"
| "allowed run_ok load_ok st (Write_simulation v) = True"
| "allowed run_ok load_ok st Plot_output = True"
| "allowed run_ok load_ok st Plot_input = True"

fun monitor :: "(stage \<Rightarrow> bool) \<Rightarrow> (stage \<Rightarrow> bool) \<Rightarrow> (string \<Rightarrow> stage) \<Rightarrow> action list \<Rightarrow> bool" where
  "monitor run_ok load_ok st [] = True"
| "monitor run_ok load_ok st (a # rest) =
     (allowed run_ok load_ok st a \<and> monitor run_ok load_ok (step st a) rest)"

definition start :: "string \<Rightarrow> stage" where
  "start = (\<lambda>v. On_disk)"

text \<open>
  The order as the specification states it: a simulation is run only when it stands
  written, and output is read only when it stands run.
\<close>

definition stated_order :: "action list \<Rightarrow> bool" where
  "stated_order nb = monitor (\<lambda>s. s = Written) (\<lambda>s. s = Ran) start nb"

text \<open>Every run is of a simulation that the notebook has written since it last changed it.\<close>

definition write_before_run :: "action list \<Rightarrow> bool" where
  "write_before_run nb = monitor (\<lambda>s. s = Written) (\<lambda>s. True) start nb"

text \<open>
  The order that the notebooks keep: a simulation is never run, and its output never
  read, while a change to it is unwritten or a written deck has not been run. A
  simulation as it is on disk may be run or read: its files come from an earlier
  notebook.
\<close>

definition kept_order :: "action list \<Rightarrow> bool" where
  "kept_order nb =
     monitor (\<lambda>s. s = Written \<or> s = On_disk) (\<lambda>s. s = Ran \<or> s = On_disk) start nb"

text \<open>The simulations that a notebook runs, by the name of their variable.\<close>

definition run_names :: "action list \<Rightarrow> string list" where
  "run_names nb = concat (map (\<lambda>a. case a of Run_simulation v p \<Rightarrow> [v] | _ \<Rightarrow> []) nb)"

text \<open>
  The reads of output and the runs: \<open>rs\<close> are the simulations that the notebook runs
  somewhere. A read of output of one of them must find it run, with no change and no
  write since that run; a read of output of any other simulation must find it as it is
  on disk.
\<close>

fun reads_after_runs :: "string list \<Rightarrow> (string \<Rightarrow> stage) \<Rightarrow> action list \<Rightarrow> bool" where
  "reads_after_runs rs st [] = True"
| "reads_after_runs rs st (a # rest) =
     ((case a of
         Load_output v k \<Rightarrow> st v = (if v \<in> set rs then Ran else On_disk)
       | _ \<Rightarrow> True)
      \<and> reads_after_runs rs (step st a) rest)"

definition reads_follow_runs :: "action list \<Rightarrow> bool" where
  "reads_follow_runs nb = reads_after_runs (run_names nb) start nb"

text \<open>
  The runs and the reads of output of a notebook in their order, each with the stage at
  which it finds its simulation.
\<close>

fun stages_seen :: "(string \<Rightarrow> stage) \<Rightarrow> action list \<Rightarrow> (action \<times> stage) list" where
  "stages_seen st [] = []"
| "stages_seen st (a # rest) =
     (case a of
        Run_simulation v p \<Rightarrow> [(a, st v)]
      | Load_output v k \<Rightarrow> [(a, st v)]
      | _ \<Rightarrow> [])
     @ stages_seen (step st a) rest"

section \<open>Parallel execution\<close>





section \<open>Paths and names\<close>

text \<open>
  A \<open>pathlib\<close> path: whether it is absolute, and its components. \<open>joinpath\<close> (the
  operator \<open>/\<close>) appends a relative path and is replaced by an absolute one.
\<close>

record path =
  is_abs :: bool
  parts :: "string list"

definition rel :: "string list \<Rightarrow> path" where
  "rel ps = \<lparr>is_abs = False, parts = ps\<rparr>"

definition joinpath :: "path \<Rightarrow> path \<Rightarrow> path" where
  "joinpath p q = (if is_abs q then q else p\<lparr>parts := parts p @ parts q\<rparr>)"

text \<open>A natural number in decimal, as an f-string prints it.\<close>

function dec :: "nat \<Rightarrow> string" where
  "dec n = (if n < 10 then [char_of (48 + n)] else dec (n div 10) @ [char_of (48 + n mod 10)])"
  by pat_completeness auto
termination
  by (relation "measure id") auto

text \<open>\<^verbatim>\<open>xs[-1]\<close>\<close>

definition last_item :: "'a list \<Rightarrow> py_error + 'a" where
  "last_item xs = (if xs = [] then Inl IndexError else Inr (last xs))"

section \<open>The assertions of the notebooks\<close>

subsection \<open>The convergence notebook (\<open>step4_parallel_solution\<close>)\<close>

text \<open>
  \<^verbatim>\<open>
    csv_inner_base = pl.Path.cwd().joinpath(base_dir).joinpath("inner.csv")
    assert pl.Path.is_file(csv_inner_base)
  \<close>
  The working directory, the directory of the base run (\<open>get_base_dir()\<close>, of a module
  that is not among the sources) and the file system (\<open>is_file\<close>) are parameters. The
  cell returns the path it has bound, or raises.
\<close>

definition csv_inner_base :: "path \<Rightarrow> path \<Rightarrow> path" where
  "csv_inner_base cwd base_dir = joinpath (joinpath cwd base_dir) (rel [''inner.csv''])"

definition assert_inner_base :: "(path \<Rightarrow> bool) \<Rightarrow> path \<Rightarrow> path \<Rightarrow> py_error + path" where
  "assert_inner_base is_file cwd base_dir =
     (if is_file (csv_inner_base cwd base_dir) then Inr (csv_inner_base cwd base_dir)
      else Inl AssertionError)"

text \<open>
  \<^verbatim>\<open>
    csv_inner_par = [
        pl.Path.cwd().joinpath(parallel_dir).joinpath(f"inner.p{irank}.csv")
        for irank in range(nr_models)
    ]
    assert pl.Path.is_file(csv_inner_par[-1])
  \<close>
\<close>

definition csv_inner_par :: "path \<Rightarrow> path \<Rightarrow> nat \<Rightarrow> path list" where
  "csv_inner_par cwd parallel_dir nr_models =
     map (\<lambda>irank. joinpath (joinpath cwd parallel_dir) (rel [''inner.p'' @ dec irank @ ''.csv'']))
       [0..<nr_models]"

definition assert_inner_par ::
  "(path \<Rightarrow> bool) \<Rightarrow> path \<Rightarrow> path \<Rightarrow> nat \<Rightarrow> py_error + path list" where
  "assert_inner_par is_file cwd parallel_dir nr_models =
     (case last_item (csv_inner_par cwd parallel_dir nr_models) of
        Inl e \<Rightarrow> Inl e
      | Inr p \<Rightarrow>
          if is_file p then Inr (csv_inner_par cwd parallel_dir nr_models)
          else Inl AssertionError)"

subsection \<open>The release points of the particle-tracking example (\<open>prt_ex3\<close>)\<close>

text \<open>
  \<^verbatim>\<open>
    prt_release_points = np.sort(
        np.mgrid[1050:2000:100, 8550:9500:100].astype(float).reshape(2, -1).T,
        axis=0,
    )
    prt_release_points = np.insert(prt_release_points, 2, 0.5, axis=1)
  \<close>
  A point is a row \<open>(x, y, z)\<close>. The values are integers and one half, which binary64
  holds exactly.
\<close>

type_synonym point = "rat \<times> rat \<times> rat"

text \<open>One axis of \<open>np.mgrid[lo:hi:st]\<close> for \<open>lo < hi\<close> and a positive step.\<close>

definition mgrid_axis :: "int \<Rightarrow> int \<Rightarrow> int \<Rightarrow> rat list" where
  "mgrid_axis lo hi st =
     map (\<lambda>i. of_int (lo + int i * st)) [0..<nat ((hi - lo + st - 1) div st)]"

text \<open>
  \<open>reshape(2, -1).T\<close> of the two coordinate grids: one row for each pair, the first
  coordinate varying slowest.
\<close>

definition mgrid_rows :: "rat list \<Rightarrow> rat list \<Rightarrow> (rat \<times> rat) list" where
  "mgrid_rows xs ys = concat (map (\<lambda>x. map (\<lambda>y. (x, y)) ys) xs)"

text \<open>\<open>np.sort(a, axis=0)\<close> sorts each column by itself.\<close>

definition sort_columns2 :: "(rat \<times> rat) list \<Rightarrow> (rat \<times> rat) list" where
  "sort_columns2 rows = zip (sort (map fst rows)) (sort (map snd rows))"

definition sort_columns3 :: "point list \<Rightarrow> point list" where
  "sort_columns3 rows =
     zip (sort (map fst rows))
       (zip (sort (map (\<lambda>r. fst (snd r)) rows)) (sort (map (\<lambda>r. snd (snd r)) rows)))"

definition prt_release_points :: "point list" where
  "prt_release_points =
     map (\<lambda>(x, y). (x, y, 1 / 2))
       (sort_columns2 (mgrid_rows (mgrid_axis 1050 2000 100) (mgrid_axis 8550 9500 100)))"

text \<open>
  \<open>np.allclose(a, b)\<close> with its default tolerances: every element satisfies
  \<open>|a - b| \<le> atol + rtol * |b|\<close>, evaluated in binary64 arithmetic, with
  \<open>rtol = 1e-05\<close> and \<open>atol = 1e-08\<close>.
\<close>

definition isclose :: "rat \<Rightarrow> rat \<Rightarrow> bool" where
  "isclose a b =
     (\<bar>round64 (a - b)\<bar>
        \<le> round64 (round64 (1 / 10 ^ 8) + round64 (round64 (1 / 10 ^ 5) * \<bar>b\<bar>)))"

definition isclose_point :: "point \<Rightarrow> point \<Rightarrow> bool" where
  "isclose_point p q =
     (isclose (fst p) (fst q) \<and> isclose (fst (snd p)) (fst (snd q))
      \<and> isclose (snd (snd p)) (snd (snd q)))"

text \<open>
  The first argument has the shape \<open>(m, 3)\<close> and the second \<open>(n, 3)\<close> with \<open>n\<close> not
  zero: the shapes broadcast when \<open>m = n\<close> or one of them is 1, and NumPy raises
  ValueError otherwise.
\<close>

definition allclose :: "point list \<Rightarrow> point list \<Rightarrow> py_error + bool" where
  "allclose a b =
     (if length a = length b then Inr (list_all2 isclose_point a b)
      else if length a = 1 then Inr (list_all (isclose_point (hd a)) b)
      else if length b = 1 then Inr (list_all (\<lambda>p. isclose_point p (hd b)) a)
      else Inl ValueError)"

text \<open>
  \<^verbatim>\<open>
    mp7_release_points = np.sort(
        np.array(list(lrcpd.to_coords(prt.modelgrid, localz=True))), axis=0
    )
    assert np.allclose(mp7_release_points, prt_release_points)
  \<close>
  The coordinates that the toolkit's MODPATH 7 template yields are the parameter
  \<open>to_coords\<close>. The cell returns the sorted array it has bound, or raises.
\<close>

definition assert_release_points :: "point list \<Rightarrow> py_error + point list" where
  "assert_release_points to_coords =
     (case allclose (sort_columns3 to_coords) prt_release_points of
        Inl e \<Rightarrow> Inl e
      | Inr ok \<Rightarrow> if ok then Inr (sort_columns3 to_coords) else Inl AssertionError)"

section \<open>From the track file to the plot\<close>

subsection \<open>\<open>prt_ex3\<close>\<close>

text \<open>
  \<^verbatim>\<open>
    example_name = "ex3"
    base_ws = pl.Path("temp") / example_name
    prt_name = f"{example_name}-prt"
    demo_ws = base_ws / "demo"
    trackcsvfile_prt = f"{prt_name}.trk.csv"
  \<close>
\<close>

definition ex3_example_name :: string where "ex3_example_name = ''ex3''"
definition ex3_base_ws :: path where "ex3_base_ws = joinpath (rel [''temp'']) (rel [ex3_example_name])"
definition ex3_prt_name :: string where "ex3_prt_name = ex3_example_name @ ''-prt''"
definition ex3_demo_ws :: path where "ex3_demo_ws = joinpath ex3_base_ws (rel [''demo''])"
definition ex3_trackcsvfile_prt :: string where "ex3_trackcsvfile_prt = ex3_prt_name @ ''.trk.csv''"

text \<open>
  The simulation is created with \<open>sim_ws=demo_ws\<close> and its output control with
  \<open>trackcsv_filerecord=[trackcsvfile_prt]\<close>: the simulator writes the track file there.
\<close>

definition ex3_track_file :: path where
  "ex3_track_file = joinpath ex3_demo_ws (rel [ex3_trackcsvfile_prt])"

text \<open>
  \<^verbatim>\<open>
    pathlines = pd.read_csv(demo_ws / trackcsvfile_prt)
    ...
    mm.plot_pathline(pathlines, layer="all", colors="black", alpha=0.5, linewidth=0.1)
  \<close>
  \<open>read_csv\<close> (the content of the files after the run) and \<open>plot_pathline\<close> are the
  libraries' and are parameters. No statement between the two assigns \<open>pathlines\<close>.
\<close>

definition ex3_pathlines :: "(path \<Rightarrow> 'df) \<Rightarrow> 'df" where
  "ex3_pathlines read_csv = read_csv (joinpath ex3_demo_ws (rel [ex3_trackcsvfile_prt]))"

definition ex3_plot :: "(path \<Rightarrow> 'df) \<Rightarrow> ('df \<Rightarrow> 'fig) \<Rightarrow> 'fig" where
  "ex3_plot read_csv plot_pathline = plot_pathline (ex3_pathlines read_csv)"

subsection \<open>\<open>prt_whirls_animation\<close>\<close>

text \<open>
  \<^verbatim>\<open>
    sim_name = "whirls-prt"
    prt_name = sim_name + "-prt"
    workspace = pl.Path("temp")
    sim_ws = workspace / sim_name
    trackcsvfile_prt = f"{prt_name}.trk.csv"
    tracktimes = list(range(0, 700000000, 5000000))
  \<close>
\<close>

definition whirls_sim_name :: string where "whirls_sim_name = ''whirls-prt''"
definition whirls_prt_name :: string where "whirls_prt_name = whirls_sim_name @ ''-prt''"
definition whirls_sim_ws :: path where "whirls_sim_ws = joinpath (rel [''temp'']) (rel [whirls_sim_name])"
definition whirls_trackcsvfile_prt :: string where "whirls_trackcsvfile_prt = whirls_prt_name @ ''.trk.csv''"

definition whirls_track_file :: path where
  "whirls_track_file = joinpath whirls_sim_ws (rel [whirls_trackcsvfile_prt])"

definition tracktimes :: "int list" where
  "tracktimes = map (\<lambda>i. int i * 5000000) [0..<140]"

text \<open>
  \<^verbatim>\<open>
    pls = pd.read_csv(sim_ws / trackcsvfile_prt)
    ...
    vtk.add_pathline_points(pls)
    gwf_mesh, prt_mesh = vtk.to_pyvista()
    ...
    pathline_slices = prt_mesh.slice_along_axis(n=len(tracktimes), axis="x")
  \<close>
  \<open>to_mesh\<close> stands for the toolkit's conversion of the pathlines to a mesh, and
  \<open>slice_along_axis\<close> for PyVista's slicing; a slice is represented by its points.
\<close>

definition whirls_pls :: "(path \<Rightarrow> 'df) \<Rightarrow> 'df" where
  "whirls_pls read_csv = read_csv (joinpath whirls_sim_ws (rel [whirls_trackcsvfile_prt]))"

definition whirls_slices ::
  "(path \<Rightarrow> 'df) \<Rightarrow> ('df \<Rightarrow> 'mesh) \<Rightarrow> (nat \<Rightarrow> 'mesh \<Rightarrow> 'pts list) \<Rightarrow> 'pts list" where
  "whirls_slices read_csv to_mesh slice_along_axis =
     slice_along_axis (length tracktimes) (to_mesh (whirls_pls read_csv))"

text \<open>\<open>pathline_slices.get(i)\<close>\<close>

definition get_block :: "'pts list \<Rightarrow> nat \<Rightarrow> py_error + 'pts" where
  "get_block blocks i = (if i < length blocks then Inr (blocks ! i) else Inl IndexError)"

text \<open>
  The first animation:
  \<^verbatim>\<open>
    frame = pathline_slices.get(0)
    p.add_mesh(frame, point_size=12, color="black")
    for i, t in enumerate(tracktimes[1:]):
        frame.points = pathline_slices.get(i).points
        p.write_frame()
  \<close>
  \<open>frame\<close> is the first block itself, so the assignment overwrites the points of block 0.
  The state is the points of the blocks and the frames written so far.
\<close>

fun animate1 :: "nat list \<Rightarrow> 'pts list \<times> 'pts list \<Rightarrow> py_error + 'pts list \<times> 'pts list" where
  "animate1 [] (blocks, frames) = Inr (blocks, frames)"
| "animate1 (i # rest) (blocks, frames) =
     (case get_block blocks i of
        Inl e \<Rightarrow> Inl e
      | Inr pts \<Rightarrow> animate1 rest (blocks[0 := pts], frames @ [(blocks[0 := pts]) ! 0]))"

definition animation1 :: "'pts list \<Rightarrow> py_error + 'pts list \<times> 'pts list" where
  "animation1 blocks =
     (case get_block blocks 0 of
        Inl e \<Rightarrow> Inl e
      | Inr frame \<Rightarrow> animate1 [0..<length (tl tracktimes)] (blocks, []))"

text \<open>
  The second animation adds the block of each time to the plot:
  \<^verbatim>\<open>
    for i, t in enumerate(tracktimes[1:]):
        frame = pathline_slices.get(i)
        p.add_mesh(frame, point_size=12, color="black")
        ...
        p.write_frame()
  \<close>
\<close>

fun animate2 :: "nat list \<Rightarrow> 'pts list \<Rightarrow> 'pts list \<Rightarrow> py_error + 'pts list" where
  "animate2 [] blocks frames = Inr frames"
| "animate2 (i # rest) blocks frames =
     (case get_block blocks i of
        Inl e \<Rightarrow> Inl e
      | Inr frame \<Rightarrow> animate2 rest blocks (frames @ [frame]))"

text \<open>Both animations, the second on the blocks as the first leaves them.\<close>

definition animations :: "'pts list \<Rightarrow> py_error + 'pts list \<times> 'pts list" where
  "animations blocks =
     (case animation1 blocks of
        Inl e \<Rightarrow> Inl e
      | Inr (blocks', frames1) \<Rightarrow>
          (case animate2 [0..<length (tl tracktimes)] blocks' [] of
             Inl e \<Rightarrow> Inl e
           | Inr frames2 \<Rightarrow> Inr (frames1, frames2)))"


section \<open>The node numbers of the particle-tracking example (\<open>prt_ex3\<close>)\<close>

text \<open>
  \<^verbatim>\<open>
    rd = []
    for i in range(nrow):
        rd.append(
            [(0, i, ncol - 1), riv_h, riv_c, riv_z, riv_iface, riv_iflowface]
        )
  \<close>
  Of a river record only the cell \<open>(layer, row, column)\<close> is used below.
\<close>

definition river_cells :: "nat \<Rightarrow> nat \<Rightarrow> (int \<times> int \<times> int) list" where
  "river_cells nrow ncol = map (\<lambda>i. (0, int i, int ncol - 1)) [0..<nrow]"

text \<open>The number of the cell \<open>(k, i, j)\<close>: \<^verbatim>\<open>ncol * (nrow * k + i) + j\<close>.\<close>

definition node_number :: "nat \<Rightarrow> nat \<Rightarrow> int \<Rightarrow> int \<Rightarrow> int \<Rightarrow> int" where
  "node_number nrow ncol k i j = int ncol * (int nrow * k + i) + j"

text \<open>
  The dictionary \<open>nodes\<close> keeps its keys in the order of insertion. Its values are lists
  of node numbers; the drain's entries are one-element lists.
\<close>

datatype node_entry = Node int | Node_list "int list"

type_synonym nodes_dict = "(string \<times> node_entry list) list"

text \<open>\<^verbatim>\<open>nodes[key].append(x)\<close>, with KeyError for a missing key.\<close>

fun append_to :: "string \<Rightarrow> node_entry \<Rightarrow> nodes_dict \<Rightarrow> py_error + nodes_dict" where
  "append_to key x [] = Inl KeyError"
| "append_to key x ((k, xs) # rest) =
     (if k = key then Inr ((k, xs @ [x]) # rest)
      else (case append_to key x rest of
              Inl e \<Rightarrow> Inl e
            | Inr rest' \<Rightarrow> Inr ((k, xs) # rest')))"

text \<open>
  \<^verbatim>\<open>
    for idx, (k, i, j, _) in enumerate(wells):
        nodes[f"well{idx + 1}"].append(ncol * (nrow * k + i) + j)
  \<close>
\<close>

fun wells_loop :: "nat \<Rightarrow> nat \<Rightarrow> nat \<Rightarrow> well list \<Rightarrow> nodes_dict \<Rightarrow> py_error + nodes_dict" where
  "wells_loop nrow ncol idx [] nodes = Inr nodes"
| "wells_loop nrow ncol idx ((k, i, j, q) # rest) nodes =
     (case append_to (''well'' @ dec (idx + 1)) (Node (node_number nrow ncol k i j)) nodes of
        Inl e \<Rightarrow> Inl e
      | Inr nodes' \<Rightarrow> wells_loop nrow ncol (idx + 1) rest nodes')"

text \<open>
  \<^verbatim>\<open>
    for j in drain[2]:
        k, i = drain[:2]
        nodes["drain"].append([ncol * (nrow * k + i) + j])
  \<close>
  \<open>drain[2]\<close> is the pair of the first and the end column, and the loop runs over its
  two members.
\<close>

fun drain_loop :: "nat \<Rightarrow> nat \<Rightarrow> int \<Rightarrow> int \<Rightarrow> int list \<Rightarrow> nodes_dict \<Rightarrow> py_error + nodes_dict" where
  "drain_loop nrow ncol k i [] nodes = Inr nodes"
| "drain_loop nrow ncol k i (j # rest) nodes =
     (case append_to ''drain'' (Node_list [node_number nrow ncol k i j]) nodes of
        Inl e \<Rightarrow> Inl e
      | Inr nodes' \<Rightarrow> drain_loop nrow ncol k i rest nodes')"

text \<open>
  \<^verbatim>\<open>
    for rivspec in rd:
        k, i, j = rivspec[0]
        node = ncol * (nrow * k + i) + j
        nodes["river"].append(node)
  \<close>
\<close>

fun river_loop :: "nat \<Rightarrow> nat \<Rightarrow> (int \<times> int \<times> int) list \<Rightarrow> nodes_dict \<Rightarrow> py_error + nodes_dict" where
  "river_loop nrow ncol [] nodes = Inr nodes"
| "river_loop nrow ncol ((k, i, j) # rest) nodes =
     (case append_to ''river'' (Node (node_number nrow ncol k i j)) nodes of
        Inl e \<Rightarrow> Inl e
      | Inr nodes' \<Rightarrow> river_loop nrow ncol rest nodes')"

text \<open>The whole cell, from the empty lists to the dictionary it leaves.\<close>

definition node_numbers :: "nat \<Rightarrow> nat \<Rightarrow> well list \<Rightarrow> drain \<Rightarrow> py_error + nodes_dict" where
  "node_numbers nrow ncol wells drain =
     (case wells_loop nrow ncol 0 wells
             [(''well1'', []), (''well2'', []), (''drain'', []), (''river'', [])] of
        Inl e \<Rightarrow> Inl e
      | Inr nodes1 \<Rightarrow>
          (case drain of
             (k, i, cols) \<Rightarrow>
               (case drain_loop nrow ncol k i [fst cols, snd cols] nodes1 of
                  Inl e \<Rightarrow> Inl e
                | Inr nodes2 \<Rightarrow> river_loop nrow ncol (river_cells nrow ncol) nodes2)))"

definition ex3_nodes :: "py_error + nodes_dict" where
  "ex3_nodes = node_numbers ex3_nrow ex3_ncol ex3_wells ex3_drain"


section \<open>The layers of the base watershed (\<open>build_base_watershed\<close>)\<close>

text \<open>
  \<^verbatim>\<open>
    nlay = 5
    dv0 = 5.0
    ...
    topc = np.zeros((nlay, nrow, ncol), dtype=float)
    botm = np.zeros((nlay, nrow, ncol), dtype=float)
    dv = dv0
    topc[0] = top_wg.copy()
    botm[0] = topc[0] - dv
    for idx in range(1, nlay):
        dv *= 1.5
        topc[idx] = botm[idx - 1]
        botm[idx] = topc[idx] - dv
  \<close>
  The arrays hold binary64 numbers. A layer is the list of its cells, row after row, and
  \<open>top_wg\<close>, the topography sampled on the grid, is a parameter. The subtraction and
  the product are the exact results rounded; a result beyond the largest float would be
  an infinity, which rationals do not represent, so the model is that of the code for
  elevations below the overflow threshold \<open>2 ^ 1024\<close>.
\<close>

definition fsub :: "rat \<Rightarrow> rat \<Rightarrow> rat" where
  "fsub x y = round64 (x - y)"

definition fmul :: "rat \<Rightarrow> rat \<Rightarrow> rat" where
  "fmul x y = round64 (x * y)"

text \<open>The loop over the layer indices still to visit; the state is \<open>(dv, topc, botm)\<close>.\<close>

fun layer_loop ::
  "nat list \<Rightarrow> rat \<times> rat list list \<times> rat list list \<Rightarrow> rat \<times> rat list list \<times> rat list list" where
  "layer_loop [] s = s"
| "layer_loop (idx # rest) (dv, topc, botm) =
     (let dv' = fmul dv (3 / 2);
          topc' = topc[idx := botm ! (idx - 1)];
          botm' = botm[idx := map (\<lambda>t. fsub t dv') (topc' ! idx)]
      in layer_loop rest (dv', topc', botm'))"

text \<open>
  The whole cell returns \<open>(topc, botm)\<close>. With no layer, \<open>topc[0]\<close> raises IndexError.
\<close>

definition build_layers :: "nat \<Rightarrow> rat \<Rightarrow> rat list \<Rightarrow> py_error + rat list list \<times> rat list list" where
  "build_layers nlay dv0 top_wg =
     (if nlay = 0 then Inl IndexError
      else
        let zeros3 = replicate nlay (replicate (length top_wg) 0);
            topc = zeros3[0 := top_wg];
            botm = zeros3[0 := map (\<lambda>t. fsub t dv0) (topc ! 0)]
        in Inr (snd (layer_loop [1..<nlay] (dv0, topc, botm))))"

text \<open>The constants of the notebook.\<close>

definition base_nlay :: nat where "base_nlay = 5"
definition base_dv0 :: rat where "base_dv0 = 5"


text \<open>The bottom of layer \<open>k\<close> below a cell of elevation \<open>t\<close>.\<close>

fun bottom :: "nat \<Rightarrow> rat \<Rightarrow> rat" where
  "bottom 0 t = fsub t 5"
| "bottom (Suc k) t = fsub (bottom k t) (5 * (3 / 2) ^ Suc k)"

text \<open>The top of layer \<open>k\<close>: the topography, or the bottom of the layer above.\<close>

definition layer_top :: "nat \<Rightarrow> rat \<Rightarrow> rat" where
  "layer_top k t = (case k of 0 \<Rightarrow> t | Suc j \<Rightarrow> bottom j t)"


section \<open>The zone map: what \<open>get_izone\<close> returns\<close>

lemma get_izone_Inr:
  "l1_river nrow ncol wells drain = Inr l1 \<Longrightarrow> l3_well nrow ncol wells = Inr l3
   \<Longrightarrow> get_izone nrow ncol wells drain = Inr [ZArray l1, ZScalar 1, ZArray l3]"
  by (simp add: get_izone_def)

lemma ex3_l1_ok: "\<not> isl (l1_river ex3_nrow ex3_ncol ex3_wells ex3_drain)"
  by code_simp

lemma ex3_l3_ok: "\<not> isl (l3_well ex3_nrow ex3_ncol ex3_wells)"
  by code_simp

lemma ex3_l1_values:
  "values_of (projr (l1_river ex3_nrow ex3_ncol ex3_wells ex3_drain)) = {1, 2, 4, 5}"
  by code_simp

lemma ex3_l3_values: "values_of (projr (l3_well ex3_nrow ex3_ncol ex3_wells)) = {1, 3}"
  by code_simp

lemma ex3_cells:
  "cell_of (l1_well ex3_nrow ex3_ncol ex3_wells) 10 9 = Some 2"
  "cell_of (l1_well ex3_nrow ex3_ncol ex3_wells) 14 19 = Some 1"
  "cell_of (l1_drain ex3_nrow ex3_ncol ex3_wells ex3_drain) 14 19 = Some 4"
  "cell_of (l1_river ex3_nrow ex3_ncol ex3_wells ex3_drain) 14 19 = Some 5"
  by code_simp+

text \<open>
  C10. With the notebook's globals, \<open>get_izone\<close> returns three entries: the layer-1 array,
  the scalar 1 and the layer-3 array. The layer-1 assignments run in the order well (2),
  drain (4), river (5): the cell at row 14, column 19 is 1 after the well, 4 after the
  drain, whose slice 9:20 reaches the last column, and 5 after the river, which is
  assigned last. The values of layer 1 are exactly 1, 2, 4 and 5, and those of layer 3
  exactly 1 and 3.
\<close>

theorem get_izone_zones:
  "\<exists>l1 l3. ex3_izone = Inr [ZArray l1, ZScalar 1, ZArray l3]
     \<and> l1_river ex3_nrow ex3_ncol ex3_wells ex3_drain = Inr l1
     \<and> cell_of (l1_well ex3_nrow ex3_ncol ex3_wells) 10 9 = Some 2
     \<and> cell_of (l1_well ex3_nrow ex3_ncol ex3_wells) 14 19 = Some 1
     \<and> cell_of (l1_drain ex3_nrow ex3_ncol ex3_wells ex3_drain) 14 19 = Some 4
     \<and> cell_of (l1_river ex3_nrow ex3_ncol ex3_wells ex3_drain) 14 19 = Some 5
     \<and> values_of l1 = {1, 2, 4, 5} \<and> values_of l3 = {1, 3}"
proof -
  obtain l1 where l1: "l1_river ex3_nrow ex3_ncol ex3_wells ex3_drain = Inr l1"
    using ex3_l1_ok by (cases "l1_river ex3_nrow ex3_ncol ex3_wells ex3_drain") auto
  obtain l3 where l3: "l3_well ex3_nrow ex3_ncol ex3_wells = Inr l3"
    using ex3_l3_ok by (cases "l3_well ex3_nrow ex3_ncol ex3_wells") auto
  have "ex3_izone = Inr [ZArray l1, ZScalar 1, ZArray l3]"
    unfolding ex3_izone_def by (rule get_izone_Inr [OF l1 l3])
  moreover have "values_of l1 = {1, 2, 4, 5}" using ex3_l1_values l1 by simp
  moreover have "values_of l3 = {1, 3}" using ex3_l3_values l3 by simp
  ultimately show ?thesis using l1 ex3_cells by blast
qed

section \<open>Binary64 rounding: bounds, monotonicity and error\<close>

lemma powi2_pos: "0 < (2::rat) powi e"
  by (simp add: zero_less_power_int)

lemma powi2_mono: "a \<le> b \<Longrightarrow> (2::rat) powi a \<le> 2 powi b"
  by (rule power_int_increasing) simp_all

lemma powi2_strict_mono: "a < b \<Longrightarrow> (2::rat) powi a < 2 powi b"
  by (rule power_int_strict_increasing) simp_all

lemma powi2_add: "(2::rat) powi (a + b) = 2 powi a * 2 powi b"
  by (rule power_int_add) simp

lemma powi2_diff: "(2::rat) powi (a - b) = 2 powi a / 2 powi b"
  by (simp add: power_int_diff)

lemma int_bitlen_powi:
  assumes "0 < p"
  shows "(2::rat) powi (bitlen p - 1) \<le> of_int p" and "of_int p < (2::rat) powi bitlen p"
proof -
  from bitlen_bounds [OF assms] have lo: "2 ^ nat (bitlen p - 1) \<le> p" and hi: "p < 2 ^ nat (bitlen p)"
    by simp_all
  have b1: "1 \<le> bitlen p" using assms by (simp add: bitlen_alt_def)
  have "(2::rat) powi (bitlen p - 1) = 2 ^ nat (bitlen p - 1)"
    using b1 by (simp add: power_int_def)
  also have "\<dots> = of_int (2 ^ nat (bitlen p - 1))" by simp
  also have "\<dots> \<le> of_int p" using lo by (simp only: of_int_le_iff)
  finally show "(2::rat) powi (bitlen p - 1) \<le> of_int p" .
  have "(of_int p :: rat) < of_int (2 ^ nat (bitlen p))" using hi by (simp only: of_int_less_iff)
  also have "\<dots> = 2 ^ nat (bitlen p)" by simp
  also have "\<dots> = (2::rat) powi bitlen p" using b1 by (simp add: power_int_def)
  finally show "of_int p < (2::rat) powi bitlen p" .
qed

lemma binade_bounds:
  assumes "0 < x"
  shows "2 powi binade x \<le> x" and "x < 2 powi (binade x + 1)"
proof -
  obtain p q where pq: "quotient_of x = (p, q)" by (cases "quotient_of x")
  have q: "0 < q" using pq by (rule quotient_of_denom_pos)
  have x: "x = of_int p / of_int q" using pq by (rule quotient_of_div)
  have p: "0 < p" using assms q x by (simp add: zero_less_divide_iff)
  define e where "e = bitlen p - bitlen q"
  have b: "binade x = (if 2 powi e \<le> x then e else e - 1)"
    by (simp add: binade_def pq e_def Let_def)
  have qr: "0 < (of_int q :: rat)" using q by simp
  have lo: "2 powi (e - 1) < x"
  proof -
    have "(2::rat) powi (e - 1) = 2 powi (bitlen p - 1) / 2 powi bitlen q"
      by (simp add: e_def power_int_diff)
    also have "\<dots> \<le> of_int p / 2 powi bitlen q"
      using int_bitlen_powi(1) [OF p] by (simp add: divide_right_mono)
    also have "\<dots> < of_int p / of_int q"
      using int_bitlen_powi(2) [OF q] p qr by (simp add: divide_strict_left_mono)
    finally show ?thesis by (simp add: x)
  qed
  have hi: "x < 2 powi (e + 1)"
  proof -
    have "x < 2 powi bitlen p / of_int q"
      using int_bitlen_powi(2) [OF p] qr by (simp add: x divide_strict_right_mono)
    also have "\<dots> \<le> 2 powi bitlen p / 2 powi (bitlen q - 1)"
      using int_bitlen_powi(1) [OF q] qr by (intro divide_left_mono) simp_all
    also have "\<dots> = 2 powi (e + 1)"
      by (simp add: e_def power_int_diff power_int_add)
    finally show ?thesis .
  qed
  show "2 powi binade x \<le> x" using b lo by (auto simp: less_imp_le)
  show "x < 2 powi (binade x + 1)" using b hi by (auto simp: not_le)
qed

lemma binade_unique:
  assumes "2 powi e \<le> x" "x < 2 powi (e + 1)"
  shows "binade x = e"
proof -
  have x: "0 < x" using assms(1) powi2_pos [of e] by linarith
  note bb = binade_bounds [OF x]
  have "2 powi e < (2::rat) powi (binade x + 1)" using assms(1) bb(2) by linarith
  then have 1: "e < binade x + 1"
    by (metis powi2_mono not_le not_less)
  have "2 powi binade x < (2::rat) powi (e + 1)" using assms(2) bb(1) by linarith
  then have 2: "binade x < e + 1"
    by (metis powi2_mono not_le not_less)
  from 1 2 show ?thesis by simp
qed

lemma binade_mono: "0 < x \<Longrightarrow> x \<le> y \<Longrightarrow> binade x \<le> binade y"
proof -
  assume x: "0 < x" and xy: "x \<le> y"
  then have y: "0 < y" by simp
  have "2 powi binade x \<le> x" using binade_bounds(1) [OF x] .
  also have "\<dots> \<le> y" by fact
  also have "\<dots> < 2 powi (binade y + 1)" using binade_bounds(2) [OF y] .
  finally have "binade x < binade y + 1" by (metis powi2_mono not_le not_less)
  then show ?thesis by simp
qed

lemma rne_cases: "rne r = \<lfloor>r\<rfloor> \<or> rne r = \<lfloor>r\<rfloor> + 1"
  by (simp add: rne_def Let_def)

lemma rne_ge_floor: "\<lfloor>r\<rfloor> \<le> rne r"
  using rne_cases [of r] by auto

lemma rne_le_floor1: "rne r \<le> \<lfloor>r\<rfloor> + 1"
  using rne_cases [of r] by auto

lemma rne_of_int [simp]: "rne (of_int n) = n"
  by (simp add: rne_def)

lemma rne_mono:
  assumes "r \<le> s"
  shows "rne r \<le> rne s"
proof (cases "\<lfloor>r\<rfloor> = \<lfloor>s\<rfloor>")
  case True
  have "r - of_int \<lfloor>r\<rfloor> \<le> s - of_int \<lfloor>s\<rfloor>" using assms True by simp
  then show ?thesis using True by (auto simp: rne_def Let_def)
next
  case False
  have "\<lfloor>r\<rfloor> \<le> \<lfloor>s\<rfloor>" using assms by (rule floor_mono)
  with False have "\<lfloor>r\<rfloor> + 1 \<le> \<lfloor>s\<rfloor>" by simp
  then show ?thesis using rne_le_floor1 [of r] rne_ge_floor [of s] by linarith
qed

lemma rne_err: "\<bar>of_int (rne r) - r\<bar> \<le> 1 / 2"
proof -
  have f: "of_int \<lfloor>r\<rfloor> \<le> r" "r < of_int \<lfloor>r\<rfloor> + 1" by linarith+
  show ?thesis
    using f by (auto simp: rne_def Let_def abs_le_iff)
qed

lemma ulp64_pos: "0 < ulp64 x"
  by (simp add: ulp64_def powi2_pos)

lemma round64_pos_eq: "0 < x \<Longrightarrow> round64 x = of_int (rne (x / ulp64 x)) * ulp64 x"
  by (simp add: round64_def)

lemma round64_zero [simp]: "round64 0 = 0"
  by (simp add: round64_def)

lemma round64_err: "\<bar>round64 x - x\<bar> \<le> ulp64 \<bar>x\<bar> / 2"
proof (cases "x = 0")
  case True
  then show ?thesis using ulp64_pos [of 0] by simp
next
  case False
  define u where "u = ulp64 \<bar>x\<bar>"
  have u: "0 < u" by (simp add: u_def ulp64_pos)
  define m where "m = rne (\<bar>x\<bar> / u)"
  have r: "round64 x = sgn x * of_int m * u"
    using False by (simp add: round64_def u_def m_def)
  have "\<bar>of_int m - \<bar>x\<bar> / u\<bar> \<le> 1 / 2" unfolding m_def by (rule rne_err)
  then have "\<bar>of_int m - \<bar>x\<bar> / u\<bar> * u \<le> 1 / 2 * u"
    using u by (simp add: mult_right_mono)
  moreover have "\<bar>of_int m - \<bar>x\<bar> / u\<bar> * u = \<bar>of_int m * u - \<bar>x\<bar>\<bar>"
  proof -
    have "\<bar>of_int m - \<bar>x\<bar> / u\<bar> * u = \<bar>(of_int m - \<bar>x\<bar> / u) * u\<bar>"
      using u by (simp add: abs_mult)
    also have "(of_int m - \<bar>x\<bar> / u) * u = of_int m * u - \<bar>x\<bar>"
      using u by (simp add: field_simps)
    finally show ?thesis .
  qed
  moreover have "\<bar>round64 x - x\<bar> = \<bar>of_int m * u - \<bar>x\<bar>\<bar>"
  proof (cases "0 < x")
    case True
    then show ?thesis by (simp add: r)
  next
    case neg: False
    with False have "x < 0" by simp
    then have "round64 x - x = - (of_int m * u - \<bar>x\<bar>)" by (simp add: r)
    then show ?thesis by (simp only: abs_minus)
  qed
  ultimately show ?thesis by (simp add: u_def)
qed

lemma ulp64_normal:
  assumes "2 powi (- 1022) \<le> x"
  shows "ulp64 x = 2 powi (binade x - 52)" and "ulp64 x \<le> x / 2 ^ 52"
proof -
  have x: "0 < x" using assms powi2_pos [of "- 1022"] by linarith
  have "2 powi (- 1022) < (2::rat) powi (binade x + 1)"
    using assms binade_bounds(2) [OF x] by linarith
  then have "- 1022 < binade x + 1" by (metis powi2_mono not_less)
  then have b: "- 1022 \<le> binade x" by simp
  then show u: "ulp64 x = 2 powi (binade x - 52)" by (simp add: ulp64_def max_def)
  have "ulp64 x = 2 powi binade x / 2 ^ 52"
    by (simp add: u power_int_diff)
  also have "\<dots> \<le> x / 2 ^ 52"
    using binade_bounds(1) [OF x] by (simp add: divide_right_mono)
  finally show "ulp64 x \<le> x / 2 ^ 52" .
qed

lemma round64_rel_err:
  assumes "2 powi (- 1022) \<le> x"
  shows "\<bar>round64 x - x\<bar> \<le> x / 2 ^ 53"
proof -
  have x: "0 < x" using assms powi2_pos [of "- 1022"] by linarith
  have "\<bar>round64 x - x\<bar> \<le> ulp64 x / 2" using round64_err [of x] x by simp
  also have "\<dots> \<le> (x / 2 ^ 52) / 2" using ulp64_normal(2) [OF assms] by simp
  also have "\<dots> = x / 2 ^ 53" by simp
  finally show ?thesis .
qed


lemma ulp64_eexp: "ulp64 x = 2 powi (eexp x - 52)"
  by (simp add: ulp64_def eexp_def)

lemma eexp_mono: "0 < x \<Longrightarrow> x \<le> y \<Longrightarrow> eexp x \<le> eexp y"
  using binade_mono [of x y] by (simp add: eexp_def max_def)

lemma powi2_53: "2 ^ 53 * (2::rat) powi (a - 52) = 2 powi (a + 1)"
proof -
  have "a + 1 = 53 + (a - 52)" by simp
  then have "(2::rat) powi (a + 1) = 2 powi (53 + (a - 52))" by (rule arg_cong)
  also have "\<dots> = 2 powi 53 * 2 powi (a - 52)" by (rule powi2_add)
  finally show ?thesis by simp
qed

lemma powi2_52: "2 ^ 52 * (2::rat) powi (a - 52) = 2 powi a"
proof -
  have "a = 52 + (a - 52)" by simp
  then have "(2::rat) powi a = 2 powi (52 + (a - 52))" by (rule arg_cong)
  also have "\<dots> = 2 powi 52 * 2 powi (a - 52)" by (rule powi2_add)
  finally show ?thesis by simp
qed

lemma scaled_less:
  assumes "0 < x"
  shows "x / ulp64 x < 2 ^ 53"
proof -
  have "x < 2 powi (binade x + 1)" using binade_bounds(2) [OF assms] .
  also have "\<dots> \<le> 2 powi (eexp x + 1)" by (rule powi2_mono) (simp add: eexp_def)
  also have "\<dots> = 2 ^ 53 * ulp64 x"
    by (simp only: ulp64_eexp powi2_53)
  finally show ?thesis using ulp64_pos [of x] by (simp add: pos_divide_less_eq)
qed

lemma round64_upper:
  assumes "0 < x"
  shows "round64 x \<le> 2 powi (eexp x + 1)"
proof -
  have "rne (x / ulp64 x) \<le> rne (of_int (2 ^ 53))"
    by (rule rne_mono) (use scaled_less [OF assms] in simp)
  then have "rne (x / ulp64 x) \<le> 2 ^ 53" by (simp only: rne_of_int)
  then have "(of_int (rne (x / ulp64 x)) :: rat) \<le> of_int (2 ^ 53)" by (simp only: of_int_le_iff)
  then have "of_int (rne (x / ulp64 x)) * ulp64 x \<le> 2 ^ 53 * ulp64 x"
    using ulp64_pos [of x] by (simp add: mult_right_mono)
  also have "2 ^ 53 * ulp64 x = 2 powi (eexp x + 1)"
    by (simp only: ulp64_eexp powi2_53)
  finally show ?thesis using assms by (simp add: round64_pos_eq)
qed

lemma round64_lower:
  assumes "2 powi (- 1022) \<le> x"
  shows "2 powi binade x \<le> round64 x"
proof -
  have x: "0 < x" using assms powi2_pos [of "- 1022"] by linarith
  have u: "ulp64 x = 2 powi (binade x - 52)" using ulp64_normal(1) [OF assms] .
  have e: "2 ^ 52 * ulp64 x = 2 powi binade x"
    by (simp only: u powi2_52)
  have "2 ^ 52 * ulp64 x \<le> x" using binade_bounds(1) [OF x] e by simp
  then have "2 ^ 52 \<le> x / ulp64 x" using ulp64_pos [of x] by (simp add: pos_le_divide_eq)
  then have "rne (of_int (2 ^ 52)) \<le> rne (x / ulp64 x)"
    by (intro rne_mono) simp
  then have "2 ^ 52 \<le> rne (x / ulp64 x)" by (simp only: rne_of_int)
  then have "(of_int (2 ^ 52) :: rat) \<le> of_int (rne (x / ulp64 x))" by (simp only: of_int_le_iff)
  then have "2 ^ 52 * ulp64 x \<le> of_int (rne (x / ulp64 x)) * ulp64 x"
    using ulp64_pos [of x] by (simp add: mult_right_mono)
  then show ?thesis using e x by (simp add: round64_pos_eq)
qed

lemma round64_nonneg: "0 \<le> x \<Longrightarrow> 0 \<le> round64 x"
proof (cases "x = 0")
  case True
  then show ?thesis by simp
next
  case False
  assume "0 \<le> x"
  with False have x: "0 < x" by simp
  have "0 \<le> x / ulp64 x" using x ulp64_pos [of x] by simp
  then have "0 \<le> \<lfloor>x / ulp64 x\<rfloor>" by simp
  then have "0 \<le> rne (x / ulp64 x)" using rne_ge_floor [of "x / ulp64 x"] by linarith
  then show ?thesis using x ulp64_pos [of x] by (simp add: round64_pos_eq)
qed

lemma round64_mono:
  assumes "0 \<le> x" "x \<le> y"
  shows "round64 x \<le> round64 y"
proof (cases "x = 0")
  case True
  then show ?thesis using round64_nonneg [of y] assms by simp
next
  case False
  with assms have x: "0 < x" and y: "0 < y" by simp_all
  have le: "eexp x \<le> eexp y" using eexp_mono [OF x assms(2)] .
  show ?thesis
  proof (cases "eexp x = eexp y")
    case True
    then have u: "ulp64 y = ulp64 x" by (simp add: ulp64_eexp)
    have "x / ulp64 x \<le> y / ulp64 x" using assms(2) ulp64_pos [of x] by (simp add: divide_right_mono)
    then have "rne (x / ulp64 x) \<le> rne (y / ulp64 x)" by (rule rne_mono)
    then have "(of_int (rne (x / ulp64 x)) :: rat) \<le> of_int (rne (y / ulp64 x))" by simp
    then have "of_int (rne (x / ulp64 x)) * ulp64 x \<le> of_int (rne (y / ulp64 x)) * ulp64 x"
      using ulp64_pos [of x] by (simp add: mult_right_mono)
    then show ?thesis using x y u by (simp add: round64_pos_eq)
  next
    case False
    with le have lt: "eexp x + 1 \<le> eexp y" by simp
    then have "- 1022 < eexp y" by (simp add: eexp_def)
    then have eb: "eexp y = binade y" by (simp add: eexp_def max_def split: if_splits)
    have "2 powi (- 1022) \<le> (2::rat) powi binade y"
      by (rule powi2_mono) (use \<open>- 1022 < eexp y\<close> eb in simp)
    also have "\<dots> \<le> y" using binade_bounds(1) [OF y] .
    finally have ny: "2 powi (- 1022) \<le> y" .
    have "round64 x \<le> 2 powi (eexp x + 1)" using round64_upper [OF x] .
    also have "\<dots> \<le> 2 powi binade y" using lt by (intro powi2_mono) (simp add: eb)
    also have "\<dots> \<le> round64 y" using round64_lower [OF ny] .
    finally show ?thesis .
  qed
qed

lemma eps_lin:
  fixes j n :: rat
  assumes "j \<le> n - 1" "0 < n" "n < 2 ^ 31"
  shows "j * ((1 + 1 / 2 ^ 53) * (1 + 1 / 2 ^ 53)) < n * (1 - 1 / 2 ^ 53)"
  using assms by simp

lemma rel_hi:
  assumes "2 powi (- 1022) \<le> x"
  shows "round64 x \<le> x * (1 + 1 / 2 ^ 53)"
proof -
  have "\<bar>round64 x - x\<bar> \<le> x / 2 ^ 53" using assms by (rule round64_rel_err)
  then have "round64 x \<le> x + x / 2 ^ 53" by linarith
  also have "\<dots> = x * (1 + 1 / 2 ^ 53)" by (simp only: distrib_left mult_1_right times_divide_eq_right)
  finally show ?thesis .
qed

lemma rel_lo:
  assumes "2 powi (- 1022) \<le> x"
  shows "x * (1 - 1 / 2 ^ 53) \<le> round64 x"
proof -
  have "\<bar>round64 x - x\<bar> \<le> x / 2 ^ 53" using assms by (rule round64_rel_err)
  then have "x - x / 2 ^ 53 \<le> round64 x" by linarith
  moreover have "x * (1 - 1 / 2 ^ 53) = x - x / 2 ^ 53"
    by (simp only: right_diff_distrib mult_1_right times_divide_eq_right)
  ultimately show ?thesis by simp
qed

lemma tiny_le: "(2::rat) powi (- 1022) \<le> 1 / 2 ^ 64"
proof -
  have "(2::rat) powi (- 1022) \<le> 2 powi (- 64)" by (rule powi2_mono) simp
  also have "\<dots> = 1 / 2 ^ 64" by (simp add: power_int_minus field_simps)
  finally show ?thesis .
qed

lemma normal_ge: "1 / 2 ^ 64 \<le> x \<Longrightarrow> (2::rat) powi (- 1022) \<le> x"
  using tiny_le by (rule order_trans)

lemma band_core:
  fixes ncol j :: nat and nd :: int
  assumes n1: "1 \<le> ncol" and n2: "ncol < 2 ^ 31" and k1: "1 \<le> nd" and k2: "nd < 2 ^ 31"
    and j: "j < ncol"
  defines "d \<equiv> round64 (of_nat ncol / of_int nd)"
  defines "x \<equiv> round64 (of_nat j)"
  defines "q \<equiv> round64 (x / d)"
  shows "0 < d" and "d < 2 ^ 33" and "0 \<le> x" and "x < 2 ^ 33" and "0 \<le> q" and "q < of_int nd"
proof -
  define n :: rat where "n = of_nat ncol"
  define k :: rat where "k = of_int nd"
  define jr :: rat where "jr = of_nat j"
  define a :: rat where "a = 1 + 1 / 2 ^ 53"
  define b :: rat where "b = 1 - 1 / 2 ^ 53"
  have a: "1 \<le> a" "a \<le> 2" and b: "1 / 2 \<le> b" "b \<le> 1" by (simp_all add: a_def b_def)
  have n: "1 \<le> n" "n < 2 ^ 31" using n1 n2 unfolding n_def
    by (simp, metis of_nat_less_iff of_nat_numeral of_nat_power)
  have k: "1 \<le> k" "k < 2 ^ 31" using k1 k2 unfolding k_def
    by (simp, metis of_int_less_iff of_int_numeral of_int_power)
  have jr: "0 \<le> jr" "jr \<le> n - 1" using j unfolding jr_def n_def
    by (simp, metis Suc_leI of_nat_Suc of_nat_le_iff le_diff_eq add.commute)
  define r0 where "r0 = n / k"
  have r0_lo: "1 / 2 ^ 31 \<le> r0"
  proof -
    have "1 / 2 ^ 31 \<le> 1 / k" using k by (intro divide_left_mono) simp_all
    also have "\<dots> \<le> n / k" using n k by (intro divide_right_mono) simp_all
    finally show ?thesis by (simp add: r0_def)
  qed
  have r0_hi: "r0 \<le> 2 ^ 31"
  proof -
    have "n / k \<le> n / 1" using n k by (intro divide_left_mono) simp_all
    then show ?thesis using n by (simp add: r0_def)
  qed
  have r0_pos: "0 < r0" using r0_lo by (rule less_le_trans [rotated]) simp
  have "(1::rat) / 2 ^ 64 \<le> 1 / 2 ^ 31" by simp
  then have "1 / 2 ^ 64 \<le> r0" using r0_lo by (rule order_trans)
  then have r0_norm: "2 powi (- 1022) \<le> r0" by (rule normal_ge)
  have d_eq: "d = round64 r0" by (simp add: d_def r0_def n_def k_def)
  have d_lo: "r0 * b \<le> d" unfolding d_eq b_def using r0_norm by (rule rel_lo)
  have d_hi: "d \<le> r0 * a" unfolding d_eq a_def using r0_norm by (rule rel_hi)
  have r0b: "0 < r0 * b" using r0_pos b by simp
  show d_pos: "0 < d" using r0b d_lo by linarith
  have "r0 * a \<le> 2 ^ 31 * 2" using r0_hi a r0_pos by (intro mult_mono) simp_all
  then have d_32: "d \<le> 2 ^ 32" using d_hi by simp
  then show "d < 2 ^ 33" by simp
  have x_eq: "x = round64 jr" by (simp add: x_def jr_def)
  show x0: "0 \<le> x" unfolding x_eq using jr(1) by (rule round64_nonneg)
  have x_hi: "x \<le> jr * a"
  proof (cases "j = 0")
    case True
    then show ?thesis by (simp add: x_eq jr_def)
  next
    case False
    then have "1 \<le> jr" by (simp add: jr_def)
    then have "1 / 2 ^ 64 \<le> jr" by simp
    then have "2 powi (- 1022) \<le> jr" by (rule normal_ge)
    then show ?thesis unfolding x_eq a_def by (rule rel_hi)
  qed
  have "jr * a \<le> 2 ^ 31 * 2" using jr n a by (intro mult_mono) simp_all
  then show "x < 2 ^ 33" using x_hi by simp
  show "0 \<le> q" unfolding q_def using x0 d_pos by (intro round64_nonneg) simp
  show "q < of_int nd"
  proof (cases "j = 0")
    case True
    then have "x = 0" by (simp add: x_eq jr_def)
    then have "q = 0" by (simp add: q_def)
    then show ?thesis using k1 by simp
  next
    case False
    then have j1: "1 \<le> jr" by (simp add: jr_def)
    then have "1 / 2 ^ 64 \<le> jr" by simp
    then have jn: "2 powi (- 1022) \<le> jr" by (rule normal_ge)
    have x_lo: "jr * b \<le> x" unfolding x_eq b_def using jn by (rule rel_lo)
    have "1 * (1 / 2) \<le> jr * b" using j1 b by (intro mult_mono) simp_all
    then have x_half: "1 / 2 \<le> x" using x_lo by simp
    have "(1 / 2) / 2 ^ 32 \<le> x / d"
      using x_half d_32 d_pos by (intro frac_le) simp_all
    moreover have "(1::rat) / 2 ^ 64 \<le> (1 / 2) / 2 ^ 32" by simp
    ultimately have "1 / 2 ^ 64 \<le> x / d" by (rule order_trans [rotated])
    then have xd_norm: "2 powi (- 1022) \<le> x / d" by (rule normal_ge)
    have q_hi: "q \<le> x / d * a" unfolding q_def a_def using xd_norm by (rule rel_hi)
    have "x / d \<le> (jr * a) / (r0 * b)"
      using x_hi r0b d_lo jr(1) a by (intro frac_le) simp_all
    then have "x / d * a \<le> (jr * a) / (r0 * b) * a" using a by (intro mult_right_mono) simp_all
    also have "(jr * a) / (r0 * b) * a = k * ((jr * (a * a)) / (n * b))"
      using n k by (simp add: r0_def field_simps)
    finally have q2: "q \<le> k * ((jr * (a * a)) / (n * b))" using q_hi by simp
    have nb: "0 < n * b" using n b by simp
    have "jr * (a * a) < n * b" unfolding a_def b_def using jr(2) n by (intro eps_lin) simp_all
    then have "(jr * (a * a)) / (n * b) < 1" using nb by simp
    then have "k * ((jr * (a * a)) / (n * b)) < k * 1" using k by (intro mult_strict_left_mono) simp_all
    then show ?thesis using q2 by (simp add: k_def)
  qed
qed

text \<open>
  The float quotient against the exact one: the three roundings move it by less than one.
\<close>

lemma eps_consts:
  "(1 + 1 / 2 ^ 53) * (1 + 1 / 2 ^ 53) / (1 - 1 / 2 ^ 53) \<le> (1::rat) + 1 / 2 ^ 50"
  "(1::rat) - 1 / 2 ^ 50 \<le> (1 - 1 / 2 ^ 53) * (1 - 1 / 2 ^ 53) / (1 + 1 / 2 ^ 53)"
  by simp_all

lemma quotient_near_exact:
  fixes ncol j :: nat and nd :: int
  assumes n1: "1 \<le> ncol" and n2: "ncol < 2 ^ 31" and k1: "1 \<le> nd" and k2: "nd < 2 ^ 31"
    and j: "j < ncol"
  defines "q \<equiv> round64 (round64 (of_nat j) / round64 (of_nat ncol / of_int nd))"
  defines "t \<equiv> (of_nat j :: rat) / (of_nat ncol / of_int nd)"
  shows "t - 1 < q" and "q < t + 1"
proof -
  define n :: rat where "n = of_nat ncol"
  define k :: rat where "k = of_int nd"
  define jr :: rat where "jr = of_nat j"
  define a :: rat where "a = 1 + 1 / 2 ^ 53"
  define b :: rat where "b = 1 - 1 / 2 ^ 53"
  define d where "d = round64 (n / k)"
  define x where "x = round64 jr"
  have a: "1 \<le> a" "a \<le> 2" and b: "1 / 2 \<le> b" "b \<le> 1" by (simp_all add: a_def b_def)
  have n: "1 \<le> n" "n < 2 ^ 31" using n1 n2 unfolding n_def
    by (simp, metis of_nat_less_iff of_nat_numeral of_nat_power)
  have k: "1 \<le> k" "k < 2 ^ 31" using k1 k2 unfolding k_def
    by (simp, metis of_int_less_iff of_int_numeral of_int_power)
  have jr: "0 \<le> jr" "jr \<le> n - 1" using j unfolding jr_def n_def
    by (simp, metis Suc_leI of_nat_Suc of_nat_le_iff le_diff_eq add.commute)
  define r0 where "r0 = n / k"
  have r0_pos: "0 < r0" using n k by (simp add: r0_def)
  have t_eq: "t = jr / r0" by (simp add: t_def jr_def r0_def n_def k_def)
  have q_eq: "q = round64 (x / d)" by (simp add: q_def x_def d_def jr_def n_def k_def)
  have t0: "0 \<le> t" using jr r0_pos by (simp add: t_eq)
  have "jr / r0 = k * (jr / n)" using n k by (simp add: r0_def)
  moreover have "jr / n < 1" using jr n by simp
  ultimately have "t < k * 1" unfolding t_eq using k by (simp only: mult_strict_left_mono)
  then have t_hi: "t < 2 ^ 31" using k by simp
  note c = band_core [OF n1 n2 k1 k2 j]
  have d_pos: "0 < d" using c(1) by (simp add: d_def n_def k_def)
  have x0: "0 \<le> x" using c(3) by (simp add: x_def jr_def)
  have d_32: "d < 2 ^ 33" using c(2) by (simp add: d_def n_def k_def)
  have r0_lo: "1 / 2 ^ 31 \<le> r0"
  proof -
    have "1 / 2 ^ 31 \<le> 1 / k" using k by (intro divide_left_mono) simp_all
    also have "\<dots> \<le> n / k" using n k by (intro divide_right_mono) simp_all
    finally show ?thesis by (simp add: r0_def)
  qed
  have "(1::rat) / 2 ^ 64 \<le> 1 / 2 ^ 31" by simp
  then have "1 / 2 ^ 64 \<le> r0" using r0_lo by (rule order_trans)
  then have r0_norm: "2 powi (- 1022) \<le> r0" by (rule normal_ge)
  have d_lo: "r0 * b \<le> d" unfolding d_def r0_def [symmetric] b_def using r0_norm by (rule rel_lo)
  have d_hi: "d \<le> r0 * a" unfolding d_def r0_def [symmetric] a_def using r0_norm by (rule rel_hi)
  have r0b: "0 < r0 * b" using r0_pos b by simp
  have r0a: "0 < r0 * a" using r0_pos a by simp
  have both: "t - 1 < q \<and> q < t + 1"
  proof (cases "j = 0")
    case True
    then have "x = 0" "t = 0" by (simp_all add: x_def jr_def t_def)
    then show ?thesis by (simp add: q_eq)
  next
    case False
    then have j1: "1 \<le> jr" by (simp add: jr_def)
    then have "1 / 2 ^ 64 \<le> jr" by simp
    then have jn: "2 powi (- 1022) \<le> jr" by (rule normal_ge)
    have x_lo: "jr * b \<le> x" unfolding x_def b_def using jn by (rule rel_lo)
    have x_hi: "x \<le> jr * a" unfolding x_def a_def using jn by (rule rel_hi)
    have "1 * (1 / 2) \<le> jr * b" using j1 b by (intro mult_mono) simp_all
    then have x_half: "1 / 2 \<le> x" using x_lo by simp
    have "(1 / 2) / 2 ^ 33 \<le> x / d"
      using x_half d_32 d_pos by (intro frac_le) simp_all
    moreover have "(1::rat) / 2 ^ 64 \<le> (1 / 2) / 2 ^ 33" by simp
    ultimately have "1 / 2 ^ 64 \<le> x / d" by (rule order_trans [rotated])
    then have xd_norm: "2 powi (- 1022) \<le> x / d" by (rule normal_ge)
    have q_hi: "q \<le> x / d * a" unfolding q_eq a_def using xd_norm by (rule rel_hi)
    have q_lo: "x / d * b \<le> q" unfolding q_eq b_def using xd_norm by (rule rel_lo)
    have "x / d \<le> (jr * a) / (r0 * b)"
      using x_hi r0b d_lo x0 by (intro frac_le) simp_all
    then have "x / d * a \<le> (jr * a) / (r0 * b) * a" using a by (intro mult_right_mono) simp_all
    also have "(jr * a) / (r0 * b) * a = t * (a * a / b)" by (simp add: t_eq)
    finally have q2: "q \<le> t * (a * a / b)" using q_hi by simp
    have "a * a / b \<le> 1 + 1 / 2 ^ 50" unfolding a_def b_def by (rule eps_consts(1))
    then have "t * (a * a / b) \<le> t * (1 + 1 / 2 ^ 50)" using t0 by (rule mult_left_mono)
    also have "\<dots> = t + t / 2 ^ 50" by (simp add: distrib_left)
    also have "\<dots> < t + 1" using t_hi by simp
    finally have up: "q < t + 1" using q2 by simp
    have jb: "0 \<le> jr * b" using jr b by simp
    have "(jr * b) / (r0 * a) \<le> x / d"
      using jb x_lo d_pos d_hi by (intro frac_le) simp_all
    then have "(jr * b) / (r0 * a) * b \<le> x / d * b" using b by (intro mult_right_mono) simp_all
    moreover have "(jr * b) / (r0 * a) * b = t * (b * b / a)" by (simp add: t_eq)
    ultimately have q3: "t * (b * b / a) \<le> q" using q_lo by simp
    have "1 - 1 / 2 ^ 50 \<le> b * b / a" unfolding a_def b_def by (rule eps_consts(2))
    then have lo1: "t * (1 - 1 / 2 ^ 50) \<le> t * (b * b / a)" using t0 by (rule mult_left_mono)
    have "t - 1 < t - t / 2 ^ 50" using t_hi by simp
    also have "\<dots> = t * (1 - 1 / 2 ^ 50)" by (simp add: right_diff_distrib)
    also have "\<dots> \<le> t * (b * b / a)" by (rule lo1)
    also have "\<dots> \<le> q" by (rule q3)
    finally have "t - 1 < q" .
    then show ?thesis using up by simp
  qed
  show "t - 1 < q" using both by simp
  show "q < t + 1" using both by simp
qed

section \<open>The rectangular splitting mask\<close>

lemma well_shaped_zeros: "well_shaped (zeros nrow ncol)"
  by (simp add: well_shaped_def zeros_def list_all_iff)

lemma norm_index_nat: "i < n \<Longrightarrow> norm_index n (int i) = Inr i"
  by (simp add: norm_index_def)

lemma set_item_in_range:
  assumes "well_shaped a" "i < nrows a" "j < ncols a"
  shows "\<exists>a'. set_item a (int i, int j) v = Inr a' \<and> well_shaped a'
           \<and> nrows a' = nrows a \<and> ncols a' = ncols a
           \<and> (\<forall>r c. r < nrows a \<longrightarrow> c < ncols a \<longrightarrow>
                 cells a' ! r ! c = (if r = i \<and> c = j then v else cells a ! r ! c))"
proof -
  define a' where "a' = a\<lparr>cells := (cells a)[i := (cells a ! i)[j := v]]\<rparr>"
  have s: "set_item a (int i, int j) v = Inr a'"
    using assms by (simp add: set_item_def norm_index_nat a'_def)
  have len: "length (cells a) = nrows a" and rows: "\<And>r. r < nrows a \<Longrightarrow> length (cells a ! r) = ncols a"
    using assms(1) by (auto simp: well_shaped_def list_all_length)
  have w: "well_shaped a'"
    using len rows assms(2) by (auto simp: well_shaped_def list_all_length a'_def nth_list_update)
  have c: "\<forall>r c. r < nrows a \<longrightarrow> c < ncols a \<longrightarrow>
                 cells a' ! r ! c = (if r = i \<and> c = j then v else cells a ! r ! c)"
    using len rows assms(2,3) by (auto simp: a'_def nth_list_update)
  show ?thesis using s w c by (auto simp: a'_def)
qed

lemma band_nonneg_less:
  assumes "1 \<le> ncol" "ncol < 2 ^ 31" "1 \<le> nd" "nd < 2 ^ 31" "j < ncol"
  shows "0 \<le> band j ncol nd" and "band j ncol nd \<le> nd - 1"
proof -
  note c = band_core [OF assms]
  show "0 \<le> band j ncol nd" unfolding band_def using c(5) by simp
  have "band j ncol nd < nd" unfolding band_def using c(6) by (simp add: floor_less_iff)
  then show "band j ncol nd \<le> nd - 1" by simp
qed

lemma band_mono:
  assumes "1 \<le> ncol" "ncol < 2 ^ 31" "1 \<le> nd" "nd < 2 ^ 31" "j < ncol" "j \<le> j'"
  shows "band j ncol nd \<le> band j' ncol nd"
proof -
  note c = band_core [OF assms(1-5)]
  have "round64 (of_nat j) \<le> round64 (of_nat j')"
    using assms(6) by (intro round64_mono) simp_all
  then have "round64 (of_nat j) / round64 (of_nat ncol / of_int nd)
      \<le> round64 (of_nat j') / round64 (of_nat ncol / of_int nd)"
    using c(1) by (simp add: divide_right_mono)
  moreover have "0 \<le> round64 (of_nat j) / round64 (of_nat ncol / of_int nd)"
    using c(1) c(3) by simp
  ultimately have "round64 (round64 (of_nat j) / round64 (of_nat ncol / of_int nd))
      \<le> round64 (round64 (of_nat j') / round64 (of_nat ncol / of_int nd))"
    by (intro round64_mono)
  then show ?thesis unfolding band_def by (rule floor_mono)
qed

lemma band_near_floor:
  assumes "1 \<le> ncol" "ncol < 2 ^ 31" "1 \<le> nd" "nd < 2 ^ 31" "j < ncol"
  shows "\<lfloor>(of_nat j :: rat) / (of_nat ncol / of_int nd)\<rfloor> - 1 \<le> band j ncol nd"
    and "band j ncol nd \<le> \<lfloor>(of_nat j :: rat) / (of_nat ncol / of_int nd)\<rfloor> + 1"
proof -
  note c = quotient_near_exact [OF assms]
  have "\<lfloor>(of_nat j :: rat) / (of_nat ncol / of_int nd) - 1\<rfloor> \<le> band j ncol nd"
    unfolding band_def using c(1) by (intro floor_mono) simp
  then show "\<lfloor>(of_nat j :: rat) / (of_nat ncol / of_int nd)\<rfloor> - 1 \<le> band j ncol nd" by simp
  have "band j ncol nd \<le> \<lfloor>(of_nat j :: rat) / (of_nat ncol / of_int nd) + 1\<rfloor>"
    unfolding band_def using c(2) by (intro floor_mono) simp
  then show "band j ncol nd \<le> \<lfloor>(of_nat j :: rat) / (of_nat ncol / of_int nd)\<rfloor> + 1" by simp
qed

lemma big_pow: "(2::rat) ^ 33 < 2 ^ 1024"
  by (rule power_strict_increasing) simp_all

lemma no_overflow: "0 \<le> r \<Longrightarrow> r < 2 ^ 33 \<Longrightarrow> \<not> (2::rat) ^ 1024 \<le> \<bar>r\<bar>"
  using big_pow by linarith

lemma of_int_lt_pow: "nd < 2 ^ 31 \<Longrightarrow> (of_int nd :: rat) < 2 ^ 33"
proof -
  assume "nd < 2 ^ 31"
  then have "(of_int nd :: rat) < of_int (2 ^ 31)" by (simp only: of_int_less_iff)
  also have "\<dots> = 2 ^ 31" by simp
  also have "\<dots> < (2::rat) ^ 33" by (rule power_strict_increasing) simp_all
  finally show ?thesis .
qed

lemma isub_in_range:
  assumes "1 \<le> ncol" "ncol < 2 ^ 31" "1 \<le> nd" "nd < 2 ^ 31" "j < ncol"
  shows "isub (int j) (int ncol) nd = Inr (Some (of_int (band j ncol nd)))"
proof -
  note c = band_core [OF assms]
  define d where "d = round64 (of_nat ncol / of_int nd)"
  define x where "x = round64 (of_nat j)"
  define q where "q = round64 (x / d)"
  have d0: "d \<noteq> 0" using c(1) unfolding d_def by simp
  have d: "\<not> 2 ^ 1024 \<le> \<bar>d\<bar>" using c(1,2) unfolding d_def by (intro no_overflow) simp_all
  have x: "\<not> 2 ^ 1024 \<le> \<bar>x\<bar>" using c(3,4) unfolding x_def by (intro no_overflow) simp_all
  have "q < of_int nd" using c(6) unfolding q_def x_def d_def .
  also have "\<dots> < 2 ^ 33" using assms(4) by (rule of_int_lt_pow)
  finally have q33: "q < 2 ^ 33" .
  have q: "\<not> 2 ^ 1024 \<le> \<bar>q\<bar>" using c(5) q33 unfolding q_def x_def d_def by (intro no_overflow) simp_all
  have nz: "nd \<noteq> 0" using assms(3) by simp
  have 1: "int_truediv (int ncol) nd = Inr d"
    unfolding int_truediv_def Let_def using nz d by (simp add: d_def)
  have 2: "float_of_int (int j) = Inr x"
    unfolding float_of_int_def Let_def using x by (simp add: x_def)
  have 3: "float_truediv x d = Inr (Some q)"
    unfolding float_truediv_def Let_def using d0 q by (simp add: q_def)
  have "isub (int j) (int ncol) nd = Inr (Some (of_int \<lfloor>q\<rfloor>))"
    by (simp add: isub_def 1 2 3 np_floor_def)
  then show ?thesis by (simp add: band_def q_def x_def d_def)
qed

lemma to_int64_band:
  assumes "0 \<le> b" "b < 2 ^ 31"
  shows "to_int64 (Some (of_int b)) = Inr b"
proof -
  have "(2::int) ^ 31 < 2 ^ 63" by (rule power_strict_increasing) simp_all
  then have "b < 2 ^ 63" using assms(2) by linarith
  moreover have "- (2 ^ 63) \<le> b" using assms(1) by (rule order_trans [rotated]) simp
  ultimately show ?thesis by (simp add: to_int64_def)
qed

lemma split_cell_in_range:
  assumes "1 \<le> ncol" "ncol < 2 ^ 31" "1 \<le> nd" "nd < 2 ^ 31" "j < ncol"
  shows "split_cell ncol nd i j a = set_item a (int i, int j) (band j ncol nd)"
proof -
  have b: "0 \<le> band j ncol nd" "band j ncol nd < 2 ^ 31"
    using band_nonneg_less [OF assms] assms(4) by linarith+
  show ?thesis
    unfolding split_cell_def isub_in_range [OF assms] using to_int64_band [OF b] by simp
qed

lemma col_loop_in_range:
  assumes "1 \<le> ncol" "ncol < 2 ^ 31" "1 \<le> nd" "nd < 2 ^ 31"
    and "well_shaped a" "ncols a = ncol" "i < nrows a" "\<forall>j\<in>set js. j < ncol"
  shows "\<exists>a'. col_loop ncol nd i js a = Inr a' \<and> well_shaped a'
           \<and> nrows a' = nrows a \<and> ncols a' = ncol
           \<and> (\<forall>r c. r < nrows a \<longrightarrow> c < ncol \<longrightarrow>
                 cells a' ! r ! c
                   = (if r = i \<and> c \<in> set js then band c ncol nd else cells a ! r ! c))"
  using assms(5-8)
proof (induction js arbitrary: a)
  case Nil
  then show ?case by simp
next
  case (Cons j js)
  have j: "j < ncol" using Cons.prems(4) by simp
  have s: "split_cell ncol nd i j a = set_item a (int i, int j) (band j ncol nd)"
    using assms(1-4) j by (rule split_cell_in_range)
  have jc: "j < ncols a" using j Cons.prems(2) by simp
  obtain a1 where a1: "set_item a (int i, int j) (band j ncol nd) = Inr a1"
    and w1: "well_shaped a1" and r1: "nrows a1 = nrows a" and c1: "ncols a1 = ncols a"
    and v1: "\<forall>r c. r < nrows a \<longrightarrow> c < ncols a \<longrightarrow>
                 cells a1 ! r ! c = (if r = i \<and> c = j then band j ncol nd else cells a ! r ! c)"
    using set_item_in_range [OF Cons.prems(1) Cons.prems(3) jc, of "band j ncol nd"] by blast
  have "\<exists>a'. col_loop ncol nd i js a1 = Inr a' \<and> well_shaped a'
           \<and> nrows a' = nrows a1 \<and> ncols a' = ncol
           \<and> (\<forall>r c. r < nrows a1 \<longrightarrow> c < ncol \<longrightarrow>
                 cells a' ! r ! c
                   = (if r = i \<and> c \<in> set js then band c ncol nd else cells a1 ! r ! c))"
    using w1 c1 r1 Cons.prems by (intro Cons.IH) simp_all
  then obtain a2 where a2: "col_loop ncol nd i js a1 = Inr a2" and w2: "well_shaped a2"
    and r2: "nrows a2 = nrows a1" and c2: "ncols a2 = ncol"
    and v2: "\<forall>r c. r < nrows a1 \<longrightarrow> c < ncol \<longrightarrow>
                 cells a2 ! r ! c
                   = (if r = i \<and> c \<in> set js then band c ncol nd else cells a1 ! r ! c)"
    by blast
  have "col_loop ncol nd i (j # js) a = Inr a2" by (simp add: s a1 a2)
  moreover have "\<forall>r c. r < nrows a \<longrightarrow> c < ncol \<longrightarrow>
                 cells a2 ! r ! c
                   = (if r = i \<and> c \<in> set (j # js) then band c ncol nd else cells a ! r ! c)"
    using v1 v2 r1 Cons.prems(2) by auto
  ultimately show ?case using w2 r2 r1 c2 by (intro exI [of _ a2] conjI) simp_all
qed

lemma row_loop_in_range:
  assumes "1 \<le> ncol" "ncol < 2 ^ 31" "1 \<le> nd" "nd < 2 ^ 31"
    and "well_shaped a" "ncols a = ncol" "\<forall>i\<in>set rs. i < nrows a"
  shows "\<exists>a'. row_loop ncol nd rs a = Inr a' \<and> well_shaped a'
           \<and> nrows a' = nrows a \<and> ncols a' = ncol
           \<and> (\<forall>r c. r < nrows a \<longrightarrow> c < ncol \<longrightarrow>
                 cells a' ! r ! c
                   = (if r \<in> set rs then band c ncol nd else cells a ! r ! c))"
  using assms(5-7)
proof (induction rs arbitrary: a)
  case Nil
  then show ?case by simp
next
  case (Cons i rs)
  have i: "i < nrows a" using Cons.prems(3) by simp
  have "\<exists>a'. col_loop ncol nd i [0..<ncol] a = Inr a' \<and> well_shaped a'
           \<and> nrows a' = nrows a \<and> ncols a' = ncol
           \<and> (\<forall>r c. r < nrows a \<longrightarrow> c < ncol \<longrightarrow>
                 cells a' ! r ! c
                   = (if r = i \<and> c \<in> set [0..<ncol] then band c ncol nd else cells a ! r ! c))"
    using assms(1-4) Cons.prems(1,2) i by (rule col_loop_in_range) simp
  then obtain a1 where a1: "col_loop ncol nd i [0..<ncol] a = Inr a1" and w1: "well_shaped a1"
    and r1: "nrows a1 = nrows a" and c1: "ncols a1 = ncol"
    and v1: "\<forall>r c. r < nrows a \<longrightarrow> c < ncol \<longrightarrow>
                 cells a1 ! r ! c = (if r = i then band c ncol nd else cells a ! r ! c)"
    by auto
  have "\<exists>a'. row_loop ncol nd rs a1 = Inr a' \<and> well_shaped a'
           \<and> nrows a' = nrows a1 \<and> ncols a' = ncol
           \<and> (\<forall>r c. r < nrows a1 \<longrightarrow> c < ncol \<longrightarrow>
                 cells a' ! r ! c
                   = (if r \<in> set rs then band c ncol nd else cells a1 ! r ! c))"
    using w1 c1 r1 Cons.prems by (intro Cons.IH) simp_all
  then obtain a2 where a2: "row_loop ncol nd rs a1 = Inr a2" and w2: "well_shaped a2"
    and r2: "nrows a2 = nrows a1" and c2: "ncols a2 = ncol"
    and v2: "\<forall>r c. r < nrows a1 \<longrightarrow> c < ncol \<longrightarrow>
                 cells a2 ! r ! c
                   = (if r \<in> set rs then band c ncol nd else cells a1 ! r ! c)"
    by blast
  have "row_loop ncol nd (i # rs) a = Inr a2" by (simp add: a1 a2)
  moreover have "\<forall>r c. r < nrows a \<longrightarrow> c < ncol \<longrightarrow>
                 cells a2 ! r ! c
                   = (if r \<in> set (i # rs) then band c ncol nd else cells a ! r ! c)"
    using v1 v2 r1 by auto
  ultimately show ?case using w2 r2 r1 c2 by (intro exI [of _ a2] conjI) simp_all
qed

lemma rect_split_array_cells:
  assumes "1 \<le> ncol" "ncol < 2 ^ 31" "1 \<le> nd" "nd < 2 ^ 31"
  shows "\<exists>a. rect_split_array nrow ncol nd = Inr a \<and> well_shaped a
           \<and> nrows a = nrow \<and> ncols a = ncol
           \<and> (\<forall>r c. r < nrow \<longrightarrow> c < ncol \<longrightarrow> cells a ! r ! c = band c ncol nd)"
proof -
  have "\<exists>a'. row_loop ncol nd [0..<nrow] (zeros nrow ncol) = Inr a' \<and> well_shaped a'
           \<and> nrows a' = nrows (zeros nrow ncol) \<and> ncols a' = ncol
           \<and> (\<forall>r c. r < nrows (zeros nrow ncol) \<longrightarrow> c < ncol \<longrightarrow>
                 cells a' ! r ! c
                   = (if r \<in> set [0..<nrow] then band c ncol nd else cells (zeros nrow ncol) ! r ! c))"
    using assms well_shaped_zeros by (rule row_loop_in_range) (simp_all add: zeros_def)
  then show ?thesis by (auto simp: rect_split_array_def zeros_def)
qed

text \<open>
  The float quotient is not the exact one: for column 9 of 18 columns and 14 domains the
  loop stores 6, where exact arithmetic gives \<open>\<lfloor>9 / (18 / 14)\<rfloor> = 7\<close>.
\<close>

lemma band_rounding: "band 9 18 14 = 6" "\<lfloor>(9::rat) / (18 / 14)\<rfloor> = 7"
  by code_simp+

lemma band_4_2: "band 0 4 2 = 0" "band 1 4 2 = 0" "band 2 4 2 = 1" "band 3 4 2 = 1"
  by code_simp+

text \<open>
  C8, as the specification states it: every cell gets \<open>floor(icol / (ncol / nr_domains))\<close>.
  The loop computes the quotient in binary64 arithmetic, and the stored value is not
  always that floor: on a grid of one row and 18 columns with 14 domains, column 9 gets
  6, where \<open>\<lfloor>9 / (18 / 14)\<rfloor> = 7\<close>.
\<close>

theorem rect_split_array_not_floor:
  "map_sum id (\<lambda>a. cells a ! 0 ! 9) (rect_split_array 1 18 14) = Inr 6
   \<and> \<lfloor>(9::rat) / (18 / 14)\<rfloor> = 7"
proof -
  have h: "(1::nat) \<le> 18" "(18::nat) < 2 ^ 31" "(1::int) \<le> 14" "(14::int) < 2 ^ 31" by simp_all
  obtain a where a: "rect_split_array 1 18 14 = Inr a"
    and v: "\<forall>r c. r < 1 \<longrightarrow> c < 18 \<longrightarrow> cells a ! r ! c = band c 18 14"
    using rect_split_array_cells [OF h, of 1] by blast
  have "cells a ! 0 ! 9 = band 9 18 14" using v by simp
  then have "cells a ! 0 ! 9 = 6" by (simp only: band_rounding)
  then show ?thesis using a band_rounding(2) by simp
qed

text \<open>
  C8, amended. For a grid of at least one row and one column and at least one domain,
  with the number of columns and of domains below \<open>2 ^ 31\<close> (the dimensions of a
  MODFLOW 6 grid are 32-bit integers), the loop of rectangular slices returns an array of
  the grid's shape. Every cell holds the value of \<^verbatim>\<open>np.floor(icol / (ncol / nr_domains))\<close>
  as binary64 arithmetic computes it, which is within one of the exact floor; it lies in
  \<open>0 .. nr_domains - 1\<close>, it is the same in every row, and it does not decrease from a
  column to a later one: each domain is a band of whole columns.
\<close>

theorem rect_split_array_bands:
  assumes "1 \<le> nrow" "1 \<le> ncol" "ncol < 2 ^ 31" "1 \<le> nr_domains" "nr_domains < 2 ^ 31"
  shows "\<exists>a. rect_split_array nrow ncol nr_domains = Inr a
           \<and> nrows a = nrow \<and> ncols a = ncol \<and> well_shaped a
           \<and> (\<forall>irow icol. irow < nrow \<longrightarrow> icol < ncol \<longrightarrow>
                 cells a ! irow ! icol = band icol ncol nr_domains
               \<and> \<lfloor>(of_nat icol :: rat) / (of_nat ncol / of_int nr_domains)\<rfloor> - 1
                   \<le> cells a ! irow ! icol
               \<and> cells a ! irow ! icol
                   \<le> \<lfloor>(of_nat icol :: rat) / (of_nat ncol / of_int nr_domains)\<rfloor> + 1
               \<and> 0 \<le> cells a ! irow ! icol
               \<and> cells a ! irow ! icol \<le> nr_domains - 1
               \<and> (\<forall>irow'. irow' < nrow \<longrightarrow> cells a ! irow' ! icol = cells a ! irow ! icol)
               \<and> (\<forall>icol'. icol \<le> icol' \<longrightarrow> icol' < ncol \<longrightarrow>
                      cells a ! irow ! icol \<le> cells a ! irow ! icol'))"
proof -
  obtain a where a: "rect_split_array nrow ncol nr_domains = Inr a" and w: "well_shaped a"
    and s: "nrows a = nrow" "ncols a = ncol"
    and v: "\<And>r c. r < nrow \<Longrightarrow> c < ncol \<Longrightarrow> cells a ! r ! c = band c ncol nr_domains"
    using rect_split_array_cells [OF assms(2-5), of nrow] by blast
  have "cells a ! irow ! icol = band icol ncol nr_domains
      \<and> \<lfloor>(of_nat icol :: rat) / (of_nat ncol / of_int nr_domains)\<rfloor> - 1
          \<le> cells a ! irow ! icol
      \<and> cells a ! irow ! icol
          \<le> \<lfloor>(of_nat icol :: rat) / (of_nat ncol / of_int nr_domains)\<rfloor> + 1
      \<and> 0 \<le> cells a ! irow ! icol
      \<and> cells a ! irow ! icol \<le> nr_domains - 1
      \<and> (\<forall>irow'. irow' < nrow \<longrightarrow> cells a ! irow' ! icol = cells a ! irow ! icol)
      \<and> (\<forall>icol'. icol \<le> icol' \<longrightarrow> icol' < ncol \<longrightarrow>
             cells a ! irow ! icol \<le> cells a ! irow ! icol')"
    if "irow < nrow" "icol < ncol" for irow icol
  proof (intro conjI allI impI)
    show "cells a ! irow ! icol = band icol ncol nr_domains" using that by (rule v)
    show "\<lfloor>(of_nat icol :: rat) / (of_nat ncol / of_int nr_domains)\<rfloor> - 1
        \<le> cells a ! irow ! icol"
      using band_near_floor(1) [OF assms(2-5) that(2)] v [OF that] by simp
    show "cells a ! irow ! icol
        \<le> \<lfloor>(of_nat icol :: rat) / (of_nat ncol / of_int nr_domains)\<rfloor> + 1"
      using band_near_floor(2) [OF assms(2-5) that(2)] v [OF that] by simp
    show "0 \<le> cells a ! irow ! icol"
      using band_nonneg_less(1) [OF assms(2-5) that(2)] v [OF that] by simp
    show "cells a ! irow ! icol \<le> nr_domains - 1"
      using band_nonneg_less(2) [OF assms(2-5) that(2)] v [OF that] by simp
    show "cells a ! irow' ! icol = cells a ! irow ! icol" if "irow' < nrow" for irow'
      using v [OF that \<open>icol < ncol\<close>] v [OF \<open>irow < nrow\<close> \<open>icol < ncol\<close>] by simp
    show "cells a ! irow ! icol \<le> cells a ! irow ! icol'" if "icol \<le> icol'" "icol' < ncol" for icol'
      using band_mono [OF assms(2-5) \<open>icol < ncol\<close> that(1)]
        v [OF \<open>irow < nrow\<close> \<open>icol < ncol\<close>] v [OF \<open>irow < nrow\<close> that(2)] by simp
  qed
  then show ?thesis using a w s by blast
qed

theorem rect_split_array_bands_witness:
  "(1::nat) \<le> 2 \<and> (1::nat) \<le> 4 \<and> (4::nat) < 2 ^ 31 \<and> (1::int) \<le> 2 \<and> (2::int) < 2 ^ 31
   \<and> [band 0 4 2, band 1 4 2, band 2 4 2, band 3 4 2] = [0, 0, 1, 1]
   \<and> (\<exists>a. rect_split_array 2 4 2 = Inr a
           \<and> nrows a = 2 \<and> ncols a = 4 \<and> well_shaped a
           \<and> (\<forall>irow icol. irow < 2 \<longrightarrow> icol < 4 \<longrightarrow>
                 cells a ! irow ! icol = band icol 4 2
               \<and> \<lfloor>(of_nat icol :: rat) / (of_nat 4 / of_int 2)\<rfloor> - 1 \<le> cells a ! irow ! icol
               \<and> cells a ! irow ! icol \<le> \<lfloor>(of_nat icol :: rat) / (of_nat 4 / of_int 2)\<rfloor> + 1
               \<and> 0 \<le> cells a ! irow ! icol
               \<and> cells a ! irow ! icol \<le> 2 - 1
               \<and> (\<forall>irow'. irow' < 2 \<longrightarrow> cells a ! irow' ! icol = cells a ! irow ! icol)
               \<and> (\<forall>icol'. icol \<le> icol' \<longrightarrow> icol' < 4 \<longrightarrow>
                      cells a ! irow ! icol \<le> cells a ! irow ! icol')))"
proof -
  have h: "(1::nat) \<le> 2" "(1::nat) \<le> 4" "(4::nat) < 2 ^ 31" "(1::int) \<le> 2" "(2::int) < 2 ^ 31"
    by simp_all
  have b: "[band 0 4 2, band 1 4 2, band 2 4 2, band 3 4 2] = [0, 0, 1, 1]"
    by (simp only: band_4_2)
  show ?thesis
    using h b rect_split_array_bands [OF h] by blast
qed

section \<open>The splitting-mask cell: toolkit or rectangular slices\<close>

lemma band_1_2_2: "band 1 2 2 = 1"
  by code_simp

text \<open>
  C1, as the specification states it: whatever the flag, the mask is the one the toolkit
  returns. It fails with \<open>use_metis = False\<close>: for a grid of one row and two columns and
  two domains the loop gives the second column to domain 1, whatever the toolkit would
  have answered; here the toolkit's answer is the mask of zeros.
\<close>

theorem split_array_cell_not_toolkit:
  "split_array_cell False (\<lambda>nparts. zeros 1 2) 1 2 2 \<noteq> Inr ((\<lambda>nparts. zeros 1 2) 2)"
proof
  assume eq: "split_array_cell False (\<lambda>nparts. zeros 1 2) 1 2 2 = Inr ((\<lambda>nparts. zeros 1 2) 2)"
  have h: "(1::nat) \<le> 2" "(2::nat) < 2 ^ 31" "(1::int) \<le> 2" "(2::int) < 2 ^ 31" by simp_all
  obtain a where a: "rect_split_array 1 2 2 = Inr a"
    and v: "\<forall>r c. r < 1 \<longrightarrow> c < 2 \<longrightarrow> cells a ! r ! c = band c 2 2"
    using rect_split_array_cells [OF h, of 1] by blast
  have "cells a ! 0 ! 1 = band 1 2 2" using v by simp
  then have "cells a ! 0 ! 1 = 1" by (simp only: band_1_2_2)
  moreover have "a = zeros 1 2" using eq a by (simp add: split_array_cell_def)
  ultimately show False by (simp add: zeros_def)
qed

text \<open>
  C1, amended. With \<open>use_metis = True\<close>, as the notebook sets it, the mask is the one
  \<open>optimize_splitting_mask\<close> returns for \<open>nr_domains\<close> parts. With \<open>use_metis = False\<close> the
  mask is computed by the notebook's own loop of rectangular slices, and the toolkit's
  partitioner has no part in it.
\<close>

theorem split_array_cell_branches:
  "split_array_cell True optimize_splitting_mask nrow ncol nr_domains
     = Inr (optimize_splitting_mask nr_domains)
   \<and> split_array_cell False optimize_splitting_mask nrow ncol nr_domains
     = rect_split_array nrow ncol nr_domains"
  by (simp add: split_array_cell_def)

section \<open>The layers of the base watershed in binary64 arithmetic\<close>





lemma dv_exact: "fmul 5 (3 / 2) = 15 / 2" "fmul (15 / 2) (3 / 2) = 45 / 4"
  "fmul (45 / 4) (3 / 2) = 135 / 8" "fmul (135 / 8) (3 / 2) = 405 / 16"
  unfolding fmul_def by code_simp+

lemma build_layers_5:
  "build_layers 5 5 top_wg =
     Inr ([top_wg, map (bottom 0) top_wg, map (bottom 1) top_wg, map (bottom 2) top_wg,
           map (bottom 3) top_wg],
          [map (bottom 0) top_wg, map (bottom 1) top_wg, map (bottom 2) top_wg,
           map (bottom 3) top_wg, map (bottom 4) top_wg])"
proof -
  have u: "[1..<5] = [1, 2, 3, 4]" by (simp add: upt_rec)
  have r: "replicate 5 x = [x, x, x, x, x]" for x :: "rat list"
    by (simp add: numeral_eq_Suc)
  have b: "bottom 1 = (\<lambda>t. fsub (fsub t 5) (15 / 2))"
    "bottom 2 = (\<lambda>t. fsub (fsub (fsub t 5) (15 / 2)) (45 / 4))"
    "bottom 3 = (\<lambda>t. fsub (fsub (fsub (fsub t 5) (15 / 2)) (45 / 4)) (135 / 8))"
    "bottom 4 = (\<lambda>t. fsub (fsub (fsub (fsub (fsub t 5) (15 / 2)) (45 / 4)) (135 / 8)) (405 / 16))"
    by (auto simp: numeral_eq_Suc fun_eq_iff)
  have b0: "bottom 0 = (\<lambda>t. fsub t 5)" by (simp add: fun_eq_iff)
  show ?thesis
    unfolding build_layers_def u r b b0
    by (simp add: Let_def dv_exact comp_def)
qed


lemma bottom_layer_top: "bottom k t = fsub (layer_top k t) (5 * (3 / 2) ^ k)"
  by (cases k) (simp_all add: layer_top_def)




lemma layers_nth:
  assumes "k < 5" "c < length top_wg"
  shows "[top_wg, map (bottom 0) top_wg, map (bottom 1) top_wg, map (bottom 2) top_wg,
           map (bottom 3) top_wg] ! k ! c = layer_top k (top_wg ! c)"
    and "[map (bottom 0) top_wg, map (bottom 1) top_wg, map (bottom 2) top_wg,
           map (bottom 3) top_wg, map (bottom 4) top_wg] ! k ! c = bottom k (top_wg ! c)"
proof -
  have k: "k = 0 \<or> k = 1 \<or> k = 2 \<or> k = 3 \<or> k = 4" using assms(1) by linarith
  show "[top_wg, map (bottom 0) top_wg, map (bottom 1) top_wg, map (bottom 2) top_wg,
           map (bottom 3) top_wg] ! k ! c = layer_top k (top_wg ! c)"
    using k assms(2) by (auto simp: layer_top_def numeral_eq_Suc)
  show "[map (bottom 0) top_wg, map (bottom 1) top_wg, map (bottom 2) top_wg,
           map (bottom 3) top_wg, map (bottom 4) top_wg] ! k ! c = bottom k (top_wg ! c)"
    using k assms(2) by (auto simp: numeral_eq_Suc simp del: bottom.simps)
qed

lemma elevation_12_3: "\<bar>round64 (123 / 10)\<bar> \<le> 2 ^ 40"
  by code_simp





section \<open>The notebooks' own computations\<close>

lemma ex3_izone_arrays:
  "ex3_izone =
     Inr [ZArray \<lparr>nrows = 21, ncols = 20,
                 cells = map (\<lambda>r. map (\<lambda>c. if c = 19 then 5
                                            else if r = 14 \<and> 9 \<le> c then 4
                                            else if r = 10 \<and> c = 9 then 2 else 1)
                                   [0..<20]) [0..<21]\<rparr>,
          ZScalar 1,
          ZArray \<lparr>nrows = 21, ncols = 20,
                 cells = map (\<lambda>r. map (\<lambda>c. if r = 12 \<and> c = 4 then 3 else 1) [0..<20])
                           [0..<21]\<rparr>]"
  by code_simp

lemma layer_recurrence:
  "\<exists>topc botm. build_layers base_nlay base_dv0 top_wg = Inr (topc, botm)
     \<and> length topc = 5 \<and> length botm = 5 \<and> topc ! 0 = top_wg
     \<and> (\<forall>k c. k < 5 \<longrightarrow> c < length top_wg \<longrightarrow>
           botm ! k ! c = fsub (topc ! k ! c) (base_dv0 * (3 / 2) ^ k)
         \<and> (k < 4 \<longrightarrow> topc ! (k + 1) ! c = botm ! k ! c))"
proof -
  define topc where "topc = [top_wg, map (bottom 0) top_wg, map (bottom 1) top_wg,
    map (bottom 2) top_wg, map (bottom 3) top_wg]"
  define botm where "botm = [map (bottom 0) top_wg, map (bottom 1) top_wg,
    map (bottom 2) top_wg, map (bottom 3) top_wg, map (bottom 4) top_wg]"
  have e: "build_layers base_nlay base_dv0 top_wg = Inr (topc, botm)"
    unfolding base_nlay_def base_dv0_def topc_def botm_def by (rule build_layers_5)
  have T: "topc ! k ! c = layer_top k (top_wg ! c)" and B: "botm ! k ! c = bottom k (top_wg ! c)"
    if "k < 5" "c < length top_wg" for k c
    unfolding topc_def botm_def using that by (rule layers_nth)+
  have main: "botm ! k ! c = fsub (topc ! k ! c) (base_dv0 * (3 / 2) ^ k)
      \<and> (k < 4 \<longrightarrow> topc ! (k + 1) ! c = botm ! k ! c)"
    if k: "k < 5" and c: "c < length top_wg" for k c
  proof -
    have 1: "botm ! k ! c = fsub (topc ! k ! c) (base_dv0 * (3 / 2) ^ k)"
      using T [OF k c] B [OF k c] by (simp only: bottom_layer_top base_dv0_def)
    have 2: "topc ! (k + 1) ! c = botm ! k ! c" if "k < 4"
    proof -
      have "k + 1 < 5" using that by simp
      then have "topc ! (k + 1) ! c = layer_top (k + 1) (top_wg ! c)" using c by (rule T)
      then show ?thesis using B [OF k c] by (simp add: layer_top_def)
    qed
    show ?thesis using 1 2 by blast
  qed
  have "length topc = 5" "length botm = 5" "topc ! 0 = top_wg" by (simp_all add: topc_def botm_def)
  then show ?thesis using e main by blast
qed

lemma ex3_nodes_wells_river:
  "map_sum id (filter (\<lambda>(key, entries). key \<noteq> ''drain'')) ex3_nodes =
     Inr [(''well1'', [Node 209]),
          (''well2'', [Node 1084]),
          (''river'', map (\<lambda>i. Node (20 * int i + 19)) [0..<21])]"
  by code_simp

lemma node_number_decode:
  assumes "0 \<le> k" "0 \<le> i" "i < int nrow" "0 \<le> j" "j < int ncol"
  shows "node_number nrow ncol k i j mod int ncol = j
       \<and> node_number nrow ncol k i j div int ncol mod int nrow = i
       \<and> node_number nrow ncol k i j div (int ncol * int nrow) = k"
proof -
  have c: "0 < int ncol" and r: "0 < int nrow" using assms by linarith+
  have m: "node_number nrow ncol k i j mod int ncol = j"
    using assms by (simp add: node_number_def)
  have d: "node_number nrow ncol k i j div int ncol = int nrow * k + i"
    using assms c by (simp add: node_number_def)
  have d2: "(int nrow * k + i) mod int nrow = i" using assms by simp
  have d3: "(int nrow * k + i) div int nrow = k" using assms r by simp
  have "node_number nrow ncol k i j div (int ncol * int nrow)
      = node_number nrow ncol k i j div int ncol div int nrow"
    using c r by (simp add: zdiv_zmult2_eq)
  then have d4: "node_number nrow ncol k i j div (int ncol * int nrow) = k"
    using d d3 by simp
  show ?thesis using m d d2 d4 by simp
qed

text \<open>
  C2, as the specification states it: the notebooks' own code implements no numeric
  algorithm over arrays, such as row-major node-number arithmetic. The cell of \<open>prt_ex3\<close>
  that fills \<open>nodes\<close> is such arithmetic: with the notebook's grid, wells, drain and
  river it computes the numbers below, \<open>ncol * (nrow * k + i) + j\<close> for each entry.
\<close>

theorem ex3_nodes_computed:
  "ex3_nodes =
     Inr [(''well1'', [Node 209]),
          (''well2'', [Node 1084]),
          (''drain'', [Node_list [289], Node_list [300]]),
          (''river'', map (\<lambda>i. Node (20 * int i + 19)) [0..<21])]"
  by code_simp

text \<open>
  C2, amended. The notebooks' own code implements numeric algorithms over arrays, among
  them a geometric layer-thickness recurrence, row-major node-number arithmetic and a
  zone-array construction.

  \<^item> The layers of \<open>build_base_watershed\<close>, a geometric recurrence: with its five layers
    and \<open>dv0 = 5.0\<close>, and elevations of at most \<open>2 ^ 40\<close> in magnitude, \<open>topc[0]\<close> is the
    topography, the bottom of layer \<open>k\<close> is the binary64 difference of its top and
    \<open>5 * 1.5 ^ k\<close>, and the top of the next layer is that bottom, at every cell.
  \<^item> The node numbers of \<open>prt_ex3\<close>: for a cell of the grid, \<open>ncol * (nrow * k + i) + j\<close>
    is its row-major number; the column, the row and the layer are recovered from it by
    remainder and division. With the notebook's grid of 21 rows and 20 columns, its two
    wells get the numbers 209 and 1084, and its river cells 19, 39, ..., 419.
  \<^item> The zone arrays of \<open>get_izone\<close> in \<open>prt_ex3\<close>: layer 1 is the array of ones of 21 rows
    and 20 columns with the cell (10, 9) set to 2, the columns 9 to 18 of row 14 set to
    4 and column 19 set to 5; layer 2 is the scalar 1; layer 3 is the array of ones with
    the cell (12, 4) set to 3.
\<close>

theorem notebooks_own_algorithms:
  "(list_all (\<lambda>t. \<bar>t\<bar> \<le> 2 ^ 40) top_wg \<longrightarrow>
      (\<exists>topc botm. build_layers base_nlay base_dv0 top_wg = Inr (topc, botm)
         \<and> length topc = 5 \<and> length botm = 5 \<and> topc ! 0 = top_wg
         \<and> (\<forall>k c. k < 5 \<longrightarrow> c < length top_wg \<longrightarrow>
               botm ! k ! c = fsub (topc ! k ! c) (base_dv0 * (3 / 2) ^ k)
             \<and> (k < 4 \<longrightarrow> topc ! (k + 1) ! c = botm ! k ! c))))
   \<and> (0 \<le> k \<and> 0 \<le> i \<and> i < int nrow \<and> 0 \<le> j \<and> j < int ncol \<longrightarrow>
        node_number nrow ncol k i j mod int ncol = j
      \<and> node_number nrow ncol k i j div int ncol mod int nrow = i
      \<and> node_number nrow ncol k i j div (int ncol * int nrow) = k)
   \<and> map_sum id (filter (\<lambda>(key, entries). key \<noteq> ''drain'')) ex3_nodes =
       Inr [(''well1'', [Node 209]),
            (''well2'', [Node 1084]),
            (''river'', map (\<lambda>i. Node (20 * int i + 19)) [0..<21])]
   \<and> ex3_izone =
       Inr [ZArray \<lparr>nrows = 21, ncols = 20,
                   cells = map (\<lambda>r. map (\<lambda>c. if c = 19 then 5
                                              else if r = 14 \<and> 9 \<le> c then 4
                                              else if r = 10 \<and> c = 9 then 2 else 1)
                                     [0..<20]) [0..<21]\<rparr>,
            ZScalar 1,
            ZArray \<lparr>nrows = 21, ncols = 20,
                   cells = map (\<lambda>r. map (\<lambda>c. if r = 12 \<and> c = 4 then 3 else 1) [0..<20])
                             [0..<21]\<rparr>]"
  using layer_recurrence [of top_wg] node_number_decode [of k i nrow j ncol]
    ex3_nodes_wells_river ex3_izone_arrays
  by blast

theorem notebooks_own_algorithms_witness:
  "list_all (\<lambda>t. \<bar>t\<bar> \<le> 2 ^ 40) [round64 (123 / 10)]
   \<and> (\<exists>topc botm. build_layers base_nlay base_dv0 [round64 (123 / 10)] = Inr (topc, botm)
         \<and> length topc = 5 \<and> length botm = 5 \<and> topc ! 0 = [round64 (123 / 10)]
         \<and> (\<forall>k c. k < 5 \<longrightarrow> c < length [round64 (123 / 10)] \<longrightarrow>
               botm ! k ! c = fsub (topc ! k ! c) (base_dv0 * (3 / 2) ^ k)
             \<and> (k < 4 \<longrightarrow> topc ! (k + 1) ! c = botm ! k ! c)))
   \<and> (0::int) \<le> 2 \<and> (0::int) \<le> 12 \<and> (12::int) < int 21 \<and> (0::int) \<le> 4 \<and> (4::int) < int 20
   \<and> node_number 21 20 2 12 4 = 1084
   \<and> node_number 21 20 2 12 4 mod int 20 = 4
   \<and> node_number 21 20 2 12 4 div int 20 mod int 21 = 12
   \<and> node_number 21 20 2 12 4 div (int 20 * int 21) = 2"
proof -
  have e: "list_all (\<lambda>t. \<bar>t\<bar> \<le> 2 ^ 40) [round64 (123 / 10)]"
    using elevation_12_3 by simp
  have h: "(0::int) \<le> 2 \<and> (0::int) \<le> 12 \<and> (12::int) < int 21 \<and> (0::int) \<le> 4 \<and> (4::int) < int 20"
    by simp
  have v: "node_number 21 20 2 12 4 = 1084" by (simp add: node_number_def)
  show ?thesis
    using e h v notebooks_own_algorithms [of "[round64 (123 / 10)]" 2 12 21 4 20] by blast
qed

section \<open>What the notebooks do, and in which order\<close>



text \<open>
  C4, as the specification states it: in every notebook that runs the simulator, a
  simulation is run only after the notebook has written it, and output is read only
  after the run. It fails for \<open>step3_parallel_watershed\<close>, which runs the split simulation
  as it loads it from disk, with no \<open>write_simulation\<close> of its own.
\<close>

theorem step3_runs_unwritten:
  "list_ex is_run step3_parallel_watershed \<and> \<not> stated_order step3_parallel_watershed"
  by code_simp

text \<open>
  C4, amended. In every notebook, a simulation is never run, and its output never read,
  between a change to the simulation and its next write, or between a write and the run
  that follows. Every read of output of a simulation that the notebook runs finds it
  run, and output of a simulation that the notebook does not run is read only of a
  simulation as it is on disk. Of the notebooks that run the simulator,
  \<open>step3_parallel_watershed\<close> is the only one that departs from the stated order, and the
  only notebook with a run that no write of its own precedes: it writes no simulation,
  runs \<open>parallel_sim\<close> alone, as it has loaded it from disk, reads the heads of
  \<open>parallel_sim\<close> after that run, and reads the heads of \<open>serial_sim\<close>, which it has
  loaded and does not run.
\<close>

theorem notebooks_keep_order:
  "list_all (\<lambda>(name, nb). kept_order nb \<and> reads_follow_runs nb) notebooks
   \<and> map fst (filter (\<lambda>(name, nb). list_ex is_run nb \<and> \<not> stated_order nb) notebooks)
       = [''step3_parallel_watershed'']
   \<and> map fst (filter (\<lambda>(name, nb). \<not> write_before_run nb) notebooks)
       = [''step3_parallel_watershed'']
   \<and> \<not> list_ex is_write step3_parallel_watershed
   \<and> run_names step3_parallel_watershed = [''parallel_sim'']
   \<and> stages_seen start step3_parallel_watershed
       = [(Run_simulation ''parallel_sim'' (Some 2), On_disk),
          (Load_output ''parallel_sim'' Head, Ran),
          (Load_output ''serial_sim'' Head, On_disk)]"
  by code_simp

section \<open>Who assigns the models to the MPI ranks\<close>





section \<open>The assertions\<close>

lemma mgrid_axis_x: "mgrid_axis 1050 2000 100 = [1050, 1150, 1250, 1350, 1450, 1550, 1650, 1750, 1850, 1950]"
  by code_simp

lemma mgrid_axis_y: "mgrid_axis 8550 9500 100 = [8550, 8650, 8750, 8850, 8950, 9050, 9150, 9250, 9350, 9450]"
  by code_simp

lemma prt_release_points_length: "length prt_release_points = 100"
  by (simp add: prt_release_points_def sort_columns2_def mgrid_rows_def mgrid_axis_x mgrid_axis_y)

lemma prt_release_points_x: "set (map fst prt_release_points) \<subseteq> set (mgrid_axis 1050 2000 100)"
proof -
  have "set (map fst prt_release_points)
      \<subseteq> set (sort (map fst (mgrid_rows (mgrid_axis 1050 2000 100) (mgrid_axis 8550 9500 100))))"
    by (auto simp: prt_release_points_def sort_columns2_def dest: set_zip_leftD)
  also have "\<dots> \<subseteq> set (mgrid_axis 1050 2000 100)"
    by (auto simp: mgrid_rows_def)
  finally show ?thesis .
qed

lemma isclose_refl: "isclose a a"
proof -
  have 1: "0 \<le> round64 (1 / 10 ^ 8)" by (rule round64_nonneg) simp
  have "0 \<le> round64 (1 / 10 ^ 5)" by (rule round64_nonneg) simp
  then have "0 \<le> round64 (round64 (1 / 10 ^ 5) * \<bar>a\<bar>)" by (intro round64_nonneg) simp
  then have "0 \<le> round64 (round64 (1 / 10 ^ 8) + round64 (round64 (1 / 10 ^ 5) * \<bar>a\<bar>))"
    using 1 by (intro round64_nonneg) simp
  then show ?thesis by (simp add: isclose_def)
qed

lemma allclose_refl: "allclose ps ps = Inr True"
  by (simp add: allclose_def list_all2_same isclose_point_def isclose_refl)

lemma last_csv_inner_par:
  "0 < n \<Longrightarrow> last (csv_inner_par cwd parallel_dir n)
     = joinpath (joinpath cwd parallel_dir) (rel [''inner.p'' @ dec (n - 1) @ ''.csv''])"
  by (cases n) (simp_all add: csv_inner_par_def del: dec.simps)

lemma isclose_1150_1050: "\<not> isclose 1150 1050"
  by code_simp

lemma prt_release_points_rows:
  "prt_release_points =
     concat (map (\<lambda>i. replicate 10 (of_int (1050 + 100 * int i), of_int (8550 + 100 * int i), 1 / 2))
               [0..<10])"
  by code_simp

lemma sort_mset_cong: "mset xs = mset ys \<Longrightarrow> sort xs = sort (ys :: rat list)"
  by (rule properties_for_sort) simp_all

lemma sort_columns3_mset:
  assumes "mset a = mset b"
  shows "sort_columns3 a = sort_columns3 b"
proof -
  have "mset (map f a) = mset (map f b)" for f :: "point \<Rightarrow> rat"
    using assms by (metis mset_map)
  then have "sort (map f a) = sort (map f b)" for f :: "point \<Rightarrow> rat"
    by (rule sort_mset_cong)
  then show ?thesis by (simp add: sort_columns3_def)
qed

lemma sort_columns3_grid:
  "sort_columns3 (map (\<lambda>(x, y). (x, y, 1 / 2))
     (mgrid_rows (mgrid_axis 1050 2000 100) (mgrid_axis 8550 9500 100))) = prt_release_points"
  by code_simp

lemma shifted_first:
  "sort_columns3 (map (\<lambda>(x, y). (x + 100, y, 1 / 2))
     (mgrid_rows (mgrid_axis 1050 2000 100) (mgrid_axis 8550 9500 100))) ! 0 = (1150, 8550, 1 / 2)"
  "length (sort_columns3 (map (\<lambda>(x, y). (x + 100, y, 1 / 2))
     (mgrid_rows (mgrid_axis 1050 2000 100) (mgrid_axis 8550 9500 100)))) = 100"
  "prt_release_points ! 0 = (1050, 8550, 1 / 2)"
  by code_simp+

lemma assert_release_points_permuted:
  assumes "mset to_coords = mset (map (\<lambda>(x, y). (x, y, 1 / 2))
     (mgrid_rows (mgrid_axis 1050 2000 100) (mgrid_axis 8550 9500 100)))"
  shows "assert_release_points to_coords = Inr prt_release_points"
proof -
  have "sort_columns3 to_coords = prt_release_points"
    using sort_columns3_mset [OF assms] by (simp only: sort_columns3_grid)
  then show ?thesis by (simp add: assert_release_points_def allclose_refl)
qed

lemma assert_release_points_shifted:
  "assert_release_points (map (\<lambda>(x, y). (x + 100, y, 1 / 2))
     (mgrid_rows (mgrid_axis 1050 2000 100) (mgrid_axis 8550 9500 100))) = Inl AssertionError"
proof -
  define s where "s = sort_columns3 (map (\<lambda>(x, y). (x + 100, y, 1 / 2))
     (mgrid_rows (mgrid_axis 1050 2000 100) (mgrid_axis 8550 9500 100)))"
  have s0: "s ! 0 = (1150, 8550, 1 / 2)" and sl: "length s = 100"
    unfolding s_def by (rule shifted_first)+
  have pl: "length prt_release_points = 100" by (rule prt_release_points_length)
  have "\<not> list_all2 isclose_point s prt_release_points"
  proof
    assume l: "list_all2 isclose_point s prt_release_points"
    have "0 < length s" using sl by simp
    with l have "isclose_point (s ! 0) (prt_release_points ! 0)"
      by (rule list_all2_nthD)
    then have "isclose 1150 1050" by (simp add: s0 shifted_first(3) isclose_point_def)
    then show False using isclose_1150_1050 by simp
  qed
  then have "allclose s prt_release_points = Inr False" using sl pl by (simp add: allclose_def)
  then show ?thesis by (simp add: assert_release_points_def s_def [symmetric])
qed

lemma csv_inner_base_abs:
  assumes "is_abs cwd"
  shows "joinpath (joinpath cwd dir) (rel [name])
     = \<lparr>is_abs = True,
        parts = (if is_abs dir then parts dir else parts cwd @ parts dir) @ [name]\<rparr>"
  using assms by (simp add: joinpath_def rel_def)

lemma inner_names_12:
  "map (\<lambda>irank. ''inner.p'' @ dec irank @ ''.csv'') [0..<12] =
     [''inner.p0.csv'', ''inner.p1.csv'', ''inner.p2.csv'', ''inner.p3.csv'',
      ''inner.p4.csv'', ''inner.p5.csv'', ''inner.p6.csv'', ''inner.p7.csv'',
      ''inner.p8.csv'', ''inner.p9.csv'', ''inner.p10.csv'', ''inner.p11.csv'']"
  by code_simp

lemma csv_inner_par_names:
  "map (\<lambda>p. last (parts p)) (csv_inner_par cwd parallel_dir n)
     = map (\<lambda>irank. ''inner.p'' @ dec irank @ ''.csv'') [0..<n]"
  by (simp add: csv_inner_par_def joinpath_def rel_def comp_def del: dec.simps)

lemma csv_inner_par_12:
  "map (\<lambda>p. last (parts p)) (csv_inner_par cwd parallel_dir 12) =
     [''inner.p0.csv'', ''inner.p1.csv'', ''inner.p2.csv'', ''inner.p3.csv'',
      ''inner.p4.csv'', ''inner.p5.csv'', ''inner.p6.csv'', ''inner.p7.csv'',
      ''inner.p8.csv'', ''inner.p9.csv'', ''inner.p10.csv'', ''inner.p11.csv'']"
  by (simp only: csv_inner_par_names inner_names_12)

lemma csv_inner_par_nth:
  assumes "is_abs cwd" "irank < n"
  shows "csv_inner_par cwd parallel_dir n ! irank
     = \<lparr>is_abs = True,
        parts = (if is_abs parallel_dir then parts parallel_dir
                 else parts cwd @ parts parallel_dir)
                @ [''inner.p'' @ dec irank @ ''.csv'']\<rparr>"
  using assms
  by (simp add: csv_inner_par_def csv_inner_base_abs del: dec.simps)

lemma isclose_1050_1150: "\<not> isclose 1050 1150"
  by code_simp

lemma prt_release_points_10: "prt_release_points ! 10 = (1150, 8650, 1 / 2)"
  by code_simp

lemma assert_release_points_single:
  "assert_release_points [(1050, 8550, 1 / 2)] = Inl AssertionError"
proof -
  have s: "sort_columns3 [(1050, 8550, 1 / 2)] = [(1050, 8550, 1 / 2)]"
    by (simp add: sort_columns3_def)
  have pl: "length prt_release_points = 100" by (rule prt_release_points_length)
  have "\<not> list_all (isclose_point (1050, 8550, 1 / 2)) prt_release_points"
  proof
    assume "list_all (isclose_point (1050, 8550, 1 / 2)) prt_release_points"
    then have "isclose_point (1050, 8550, 1 / 2) (prt_release_points ! 10)"
      using pl by (simp add: list_all_length)
    then show False
      using isclose_1050_1150 by (simp add: prt_release_points_10 isclose_point_def)
  qed
  then have "allclose [(1050, 8550, 1 / 2)] prt_release_points = Inr False"
    using pl by (simp add: allclose_def)
  then show ?thesis by (simp add: assert_release_points_def s)
qed

text \<open>
  C5, as the specification states it: the repository's code states no assertion of its
  own, so no cell stops with an AssertionError. It fails in the convergence notebook:
  started in the directory \<open>/home/user\<close>, on a file system without the solver output of
  the base run, the cell that binds \<open>csv_inner_base\<close> raises AssertionError.
\<close>

theorem inner_base_assertion_fails:
  "assert_inner_base (\<lambda>p. False) \<lparr>is_abs = True, parts = [''home'', ''user'']\<rparr> (rel [''base''])
     = Inl AssertionError"
  by (simp add: assert_inner_base_def)

text \<open>
  C5, amended. The repository's code states assertions over its own computations.

  \<^item> The convergence notebook, in its absolute working directory, builds the paths
    \<open>inner.csv\<close> in the directory of the base run and \<open>inner.p0.csv\<close>, ...,
    \<open>inner.p{n-1}.csv\<close> in that of the parallel run, one for each of the \<open>n\<close> models; an
    absolute directory replaces the working directory. It asserts that \<open>inner.csv\<close> is
    a file, and that the last of the others, \<open>inner.p{n-1}.csv\<close>, is one. Each cell
    stops with AssertionError when its file is missing; with no model, the index \<open>-1\<close>
    raises IndexError first.
  \<^item> The particle-tracking notebook builds release points itself with \<open>np.mgrid\<close>; after
    the sort of each column they are the ten points \<open>(1050 + 100 i, 8550 + 100 i, 0.5)\<close>,
    each ten times. It asserts \<open>np.allclose\<close> of them and the release points of the
    toolkit's template, each column sorted. The assertion holds when the template
    yields the 100 points of the grid at \<open>z = 0.5\<close>, in any order; the cell stops with
    AssertionError when it yields that grid moved by 100 along \<open>x\<close>, or the single point
    \<open>(1050, 8550, 0.5)\<close>, and with ValueError when it yields no point.
\<close>

theorem notebook_assertions:
  "(is_abs cwd \<longrightarrow>
      assert_inner_base is_file cwd base_dir =
        (if is_file \<lparr>is_abs = True,
                     parts = (if is_abs base_dir then parts base_dir
                              else parts cwd @ parts base_dir) @ [''inner.csv'']\<rparr>
         then Inr \<lparr>is_abs = True,
                   parts = (if is_abs base_dir then parts base_dir
                            else parts cwd @ parts base_dir) @ [''inner.csv'']\<rparr>
         else Inl AssertionError)
    \<and> assert_inner_par is_file cwd parallel_dir nr_models =
        (if nr_models = 0 then Inl IndexError
         else if is_file \<lparr>is_abs = True,
                          parts = (if is_abs parallel_dir then parts parallel_dir
                                   else parts cwd @ parts parallel_dir)
                                  @ [''inner.p'' @ dec (nr_models - 1) @ ''.csv'']\<rparr>
         then Inr (csv_inner_par cwd parallel_dir nr_models)
         else Inl AssertionError)
    \<and> (\<forall>irank. irank < nr_models \<longrightarrow>
          csv_inner_par cwd parallel_dir nr_models ! irank
            = \<lparr>is_abs = True,
               parts = (if is_abs parallel_dir then parts parallel_dir
                        else parts cwd @ parts parallel_dir)
                       @ [''inner.p'' @ dec irank @ ''.csv'']\<rparr>))
   \<and> length (csv_inner_par cwd parallel_dir nr_models) = nr_models
   \<and> map (\<lambda>p. last (parts p)) (csv_inner_par cwd parallel_dir 12) =
       [''inner.p0.csv'', ''inner.p1.csv'', ''inner.p2.csv'', ''inner.p3.csv'',
        ''inner.p4.csv'', ''inner.p5.csv'', ''inner.p6.csv'', ''inner.p7.csv'',
        ''inner.p8.csv'', ''inner.p9.csv'', ''inner.p10.csv'', ''inner.p11.csv'']
   \<and> prt_release_points =
       concat (map (\<lambda>i. replicate 10
                           (of_int (1050 + 100 * int i), of_int (8550 + 100 * int i), 1 / 2))
                 [0..<10])
   \<and> (mset to_coords = mset (map (\<lambda>(x, y). (x, y, 1 / 2))
          (mgrid_rows (mgrid_axis 1050 2000 100) (mgrid_axis 8550 9500 100))) \<longrightarrow>
        assert_release_points to_coords = Inr prt_release_points)
   \<and> assert_release_points (map (\<lambda>(x, y). (x + 100, y, 1 / 2))
        (mgrid_rows (mgrid_axis 1050 2000 100) (mgrid_axis 8550 9500 100))) = Inl AssertionError
   \<and> assert_release_points [(1050, 8550, 1 / 2)] = Inl AssertionError
   \<and> assert_release_points [] = Inl ValueError"
proof (intro conjI impI allI)
  assume a: "is_abs cwd"
  show "assert_inner_base is_file cwd base_dir =
        (if is_file \<lparr>is_abs = True,
                     parts = (if is_abs base_dir then parts base_dir
                              else parts cwd @ parts base_dir) @ [''inner.csv'']\<rparr>
         then Inr \<lparr>is_abs = True,
                   parts = (if is_abs base_dir then parts base_dir
                            else parts cwd @ parts base_dir) @ [''inner.csv'']\<rparr>
         else Inl AssertionError)"
    unfolding assert_inner_base_def csv_inner_base_def csv_inner_base_abs [OF a] by simp
  show "assert_inner_par is_file cwd parallel_dir nr_models =
        (if nr_models = 0 then Inl IndexError
         else if is_file \<lparr>is_abs = True,
                          parts = (if is_abs parallel_dir then parts parallel_dir
                                   else parts cwd @ parts parallel_dir)
                                  @ [''inner.p'' @ dec (nr_models - 1) @ ''.csv'']\<rparr>
         then Inr (csv_inner_par cwd parallel_dir nr_models)
         else Inl AssertionError)"
  proof (cases "nr_models = 0")
    case True
    then show ?thesis by (simp add: assert_inner_par_def last_item_def csv_inner_par_def)
  next
    case False
    then have n: "0 < nr_models" by simp
    have ne: "csv_inner_par cwd parallel_dir nr_models \<noteq> []"
      using n by (simp add: csv_inner_par_def)
    have "last (csv_inner_par cwd parallel_dir nr_models)
        = \<lparr>is_abs = True,
           parts = (if is_abs parallel_dir then parts parallel_dir
                    else parts cwd @ parts parallel_dir)
                   @ [''inner.p'' @ dec (nr_models - 1) @ ''.csv'']\<rparr>"
      unfolding last_csv_inner_par [OF n] by (rule csv_inner_base_abs [OF a])
    then show ?thesis
      using False ne by (simp add: assert_inner_par_def last_item_def del: dec.simps)
  qed
  show "csv_inner_par cwd parallel_dir nr_models ! irank
      = \<lparr>is_abs = True,
         parts = (if is_abs parallel_dir then parts parallel_dir
                  else parts cwd @ parts parallel_dir)
                 @ [''inner.p'' @ dec irank @ ''.csv'']\<rparr>"
    if "irank < nr_models" for irank
    using a that by (rule csv_inner_par_nth)
next
  show "length (csv_inner_par cwd parallel_dir nr_models) = nr_models"
    by (simp add: csv_inner_par_def)
next
  show "map (\<lambda>p. last (parts p)) (csv_inner_par cwd parallel_dir 12) =
       [''inner.p0.csv'', ''inner.p1.csv'', ''inner.p2.csv'', ''inner.p3.csv'',
        ''inner.p4.csv'', ''inner.p5.csv'', ''inner.p6.csv'', ''inner.p7.csv'',
        ''inner.p8.csv'', ''inner.p9.csv'', ''inner.p10.csv'', ''inner.p11.csv'']"
    by (rule csv_inner_par_12)
next
  show "prt_release_points =
       concat (map (\<lambda>i. replicate 10
                           (of_int (1050 + 100 * int i), of_int (8550 + 100 * int i), 1 / 2))
                 [0..<10])"
    by (rule prt_release_points_rows)
next
  assume "mset to_coords = mset (map (\<lambda>(x, y). (x, y, 1 / 2))
          (mgrid_rows (mgrid_axis 1050 2000 100) (mgrid_axis 8550 9500 100)))"
  then show "assert_release_points to_coords = Inr prt_release_points"
    by (rule assert_release_points_permuted)
next
  show "assert_release_points (map (\<lambda>(x, y). (x + 100, y, 1 / 2))
        (mgrid_rows (mgrid_axis 1050 2000 100) (mgrid_axis 8550 9500 100))) = Inl AssertionError"
    by (rule assert_release_points_shifted)
next
  show "assert_release_points [(1050, 8550, 1 / 2)] = Inl AssertionError"
    by (rule assert_release_points_single)
next
  show "assert_release_points [] = Inl ValueError"
    using prt_release_points_length
    by (simp add: assert_release_points_def allclose_def sort_columns3_def)
qed

theorem notebook_assertions_witness:
  "is_abs \<lparr>is_abs = True, parts = [''home'', ''user'']\<rparr>
   \<and> assert_inner_base (\<lambda>p. True) \<lparr>is_abs = True, parts = [''home'', ''user'']\<rparr> (rel [''base''])
       = Inr \<lparr>is_abs = True, parts = [''home'', ''user'', ''base'', ''inner.csv'']\<rparr>
   \<and> assert_inner_par (\<lambda>p. True) \<lparr>is_abs = True, parts = [''home'', ''user'']\<rparr>
         (rel [''parallel'']) 2
       = Inr (csv_inner_par \<lparr>is_abs = True, parts = [''home'', ''user'']\<rparr> (rel [''parallel'']) 2)
   \<and> mset (rev (map (\<lambda>(x, y). (x, y, 1 / 2))
              (mgrid_rows (mgrid_axis 1050 2000 100) (mgrid_axis 8550 9500 100))))
       = mset (map (\<lambda>(x, y). (x, y, 1 / 2))
              (mgrid_rows (mgrid_axis 1050 2000 100) (mgrid_axis 8550 9500 100)))
   \<and> assert_release_points
         (rev (map (\<lambda>(x, y). (x, y, 1 / 2))
              (mgrid_rows (mgrid_axis 1050 2000 100) (mgrid_axis 8550 9500 100))))
       = Inr prt_release_points"
  using notebook_assertions
    [of "\<lparr>is_abs = True, parts = [''home'', ''user'']\<rparr>" "\<lambda>p. True" "rel [''base'']"
        "rel [''parallel'']" 2
        "rev (map (\<lambda>(x, y). (x, y, 1 / 2))
              (mgrid_rows (mgrid_axis 1050 2000 100) (mgrid_axis 8550 9500 100)))"]
  by (simp add: rel_def)

section \<open>The pathlines between the track file and the plot\<close>

lemma tracktimes_length: "length tracktimes = 140"
  by (simp add: tracktimes_def)

lemma ex3_track_file_parts: "parts ex3_track_file = [''temp'', ''ex3'', ''demo'', ''ex3-prt.trk.csv'']"
  by (simp add: ex3_track_file_def ex3_demo_ws_def ex3_base_ws_def ex3_trackcsvfile_prt_def
      ex3_prt_name_def ex3_example_name_def joinpath_def rel_def)

lemma whirls_track_file_parts:
  "parts whirls_track_file = [''temp'', ''whirls-prt'', ''whirls-prt-prt.trk.csv'']"
  by (simp add: whirls_track_file_def whirls_sim_ws_def whirls_trackcsvfile_prt_def
      whirls_prt_name_def whirls_sim_name_def joinpath_def rel_def)

lemma animate1_later:
  assumes "length bl = length blocks" "\<forall>i. 0 < i \<longrightarrow> bl ! i = blocks ! i"
    and "\<forall>i\<in>set js. 0 < i \<and> i < length blocks" "js \<noteq> []"
  shows "animate1 js (bl, fr) = Inr (blocks[0 := blocks ! last js], fr @ map (\<lambda>i. blocks ! i) js)"
  using assms
proof (induction js arbitrary: bl fr)
  case Nil
  then show ?case by simp
next
  case (Cons j js)
  have j: "0 < j" "j < length blocks" using Cons.prems(3) by simp_all
  have g: "get_block bl j = Inr (blocks ! j)"
    using j Cons.prems(1,2) by (simp add: get_block_def)
  have "0 < length blocks" using j by linarith
  then have nb: "blocks \<noteq> []" by simp
  have len: "0 < length bl" using \<open>0 < length blocks\<close> Cons.prems(1) by simp
  have upd: "bl[0 := blocks ! j] = blocks[0 := blocks ! j]"
  proof (rule nth_equalityI)
    show "length (bl[0 := blocks ! j]) = length (blocks[0 := blocks ! j])"
      using Cons.prems(1) by simp
    fix i
    assume "i < length (bl[0 := blocks ! j])"
    show "bl[0 := blocks ! j] ! i = blocks[0 := blocks ! j] ! i"
    proof (cases "i = 0")
      case True
      then show ?thesis using len \<open>0 < length blocks\<close> by simp
    next
      case False
      then have "bl ! i = blocks ! i" using Cons.prems(2) by blast
      then show ?thesis using False by simp
    qed
  qed
  show ?case
  proof (cases "js = []")
    case True
    then show ?thesis using g len nb upd by simp
  next
    case False
    have "animate1 js (blocks[0 := blocks ! j], fr @ [blocks ! j])
        = Inr (blocks[0 := blocks ! last js], (fr @ [blocks ! j]) @ map (\<lambda>i. blocks ! i) js)"
      using Cons.prems(3) False by (intro Cons.IH) simp_all
    then show ?thesis using g len nb upd False Cons.prems(1) by simp
  qed
qed

lemma animate1_all:
  assumes "1 < n" "n \<le> length blocks"
  shows "animate1 [0..<n] (blocks, []) = Inr (blocks[0 := blocks ! (n - 1)], take n blocks)"
proof -
  have u: "[0..<n] = 0 # [1..<n]" using assms(1) by (simp add: upt_conv_Cons)
  have ne: "[1..<n] \<noteq> []" using assms(1) by simp
  have "0 < length blocks" using assms by linarith
  then have g: "get_block blocks 0 = Inr (blocks ! 0)" by (simp add: get_block_def)
  have "0 < length blocks" by fact
  then have nb: "blocks \<noteq> []" by simp
  have l: "last [1..<n] = n - 1" using assms(1) by (metis ne last_upt One_nat_def)
  have "animate1 [1..<n] (blocks, [blocks ! 0])
      = Inr (blocks[0 := blocks ! last [1..<n]], [blocks ! 0] @ map (\<lambda>i. blocks ! i) [1..<n])"
  proof (rule animate1_later)
    show "length blocks = length blocks" by simp
    show "\<forall>i. 0 < i \<longrightarrow> blocks ! i = blocks ! i" by simp
    show "\<forall>i\<in>set [1..<n]. 0 < i \<and> i < length blocks" using assms(2) by auto
    show "[1..<n] \<noteq> []" by (rule ne)
  qed
  moreover have "[blocks ! 0] @ map (\<lambda>i. blocks ! i) [1..<n] = take n blocks"
  proof -
    have "map (\<lambda>i. blocks ! i) [0..<n] = map (\<lambda>i. blocks ! i) (take n [0..<length blocks])"
      using assms(2) by simp
    also have "\<dots> = take n (map (\<lambda>i. blocks ! i) [0..<length blocks])"
      by (simp only: take_map)
    also have "\<dots> = take n blocks" by (simp only: map_nth)
    finally have "take n blocks = map (\<lambda>i. blocks ! i) [0..<n]" by simp
    then show ?thesis by (simp add: u)
  qed
  ultimately show ?thesis using g l nb assms by (simp add: u)
qed

lemma animate2_frames:
  assumes "\<forall>i\<in>set js. i < length blocks"
  shows "animate2 js blocks fr = Inr (fr @ map (\<lambda>i. blocks ! i) js)"
  using assms by (induction js arbitrary: fr) (simp_all add: get_block_def)

lemma animations_frames:
  assumes "length blocks = 140"
  shows "animations blocks
     = Inr (take 139 blocks, map (\<lambda>i. (blocks[0 := blocks ! 138]) ! i) [0..<139])"
proof -
  have t: "length (tl tracktimes) = 139" by (simp add: tracktimes_length)
  have g: "get_block blocks 0 = Inr (blocks ! 0)" using assms by (simp add: get_block_def)
  have 1: "animation1 blocks = Inr (blocks[0 := blocks ! 138], take 139 blocks)"
    using animate1_all [of 139 blocks] assms g by (simp add: animation1_def tracktimes_length)
  have 2: "animate2 [0..<139] (blocks[0 := blocks ! 138]) []
      = Inr ([] @ map (\<lambda>i. (blocks[0 := blocks ! 138]) ! i) [0..<139])"
    using assms by (intro animate2_frames) simp
  show ?thesis using 2 by (simp add: animations_def 1 tracktimes_length)
qed

text \<open>
  C6. In \<open>prt_whirls_animation\<close> the pathline mesh is cut into 140 slices, one for each
  track time; let slice \<open>i\<close> stand for its own points. The first animation writes the
  slices 0 to 138 in order, but its frame is block 0 itself, so each assignment to
  \<open>frame.points\<close> overwrites the points of block 0, which holds those of slice 138 at the
  end. The second animation reads the blocks again: its first frame, meant for the first
  track time, shows the points of slice 138 where those of slice 0 belong, and the
  points of slice 0 are shown in no frame of it.
\<close>

theorem second_animation_first_frame:
  "animations [0..<140] = Inr ([0..<139], 138 # [1..<139])"
proof -
  have l: "length [0..<140] = 140" by simp
  have 1: "take 139 [0..<140] = [0..<139]" by simp
  have u: "[0..<139] = 0 # [1..<139]" by (simp add: upt_conv_Cons)
  have "map (\<lambda>i. ([0..<140][0 := [0..<140] ! 138]) ! i) [1..<139] = map (\<lambda>i. i) [1..<139]"
    by (rule map_cong) (simp_all del: upt_Suc)
  then have 2: "map (\<lambda>i. ([0..<140][0 := [0..<140] ! 138]) ! i) [0..<139] = 138 # [1..<139]"
    by (simp add: u del: upt_Suc)
  have "animations [0..<140]
      = Inr (take 139 [0..<140], map (\<lambda>i. ([0..<140][0 := [0..<140] ! 138]) ! i) [0..<139])"
    using l by (rule animations_frames)
  then show ?thesis by (simp only: 1 2)
qed

end
